theory Spec2Isabelle
  imports Complex_Main "HOL-Library.Word" "HOL-Library.List_Lexorder" "HOL-Library.Char_ord"
begin

section \<open>Data model\<close>

text \<open>
  JavaScript numbers are modelled as \<^typ>\<open>real\<close>: every statement below is about exact
  arithmetic, not about IEEE-754 rounding.  Strings are \<^typ>\<open>string\<close>, \<open>null\<close> and
  \<open>undefined\<close> are \<^const>\<open>None\<close>.
\<close>

record User =
  user_id :: string
  name :: string
  avatar :: "string option"

datatype AttachmentType = Image | File

record Attachment =
  attachment_id :: string
  attachment_type :: AttachmentType
  url :: string
  attachment_name :: string

text \<open>The Fabric JSON document: \<open>{version: string, objects: any[]}\<close>.\<close>

record 'o DrawingPath =
  version :: string
  objects :: "'o list"

datatype AnnotationType = Comment | Drawing

record 'o Annotation =
  id :: string
  videoId :: string
  startTime :: real
  endTime :: real
  author :: User
  text_of :: string
  createdAt :: int
  type_of :: AnnotationType
  drawingData :: "'o DrawingPath option"
  attachments :: "Attachment list"

text \<open>The \<open>{start, end}\<close> object of the selection range and of the provisional range.\<close>

record Range =
  range_start :: real
  range_end :: real

section \<open>Timeline: zoom window\<close>

definition ZOOM_LEVELS :: "real list" where
  "ZOOM_LEVELS = [1, 2, 4, 8, 16]"

definition visibleDuration :: "real \<Rightarrow> real \<Rightarrow> real" where
  "visibleDuration duration zoomLevel = duration / zoomLevel"

definition viewStart :: "real \<Rightarrow> real \<Rightarrow> real \<Rightarrow> real" where
  "viewStart duration zoomLevel zoomCenter =
     max 0 (zoomCenter - visibleDuration duration zoomLevel / 2)"

definition viewEnd :: "real \<Rightarrow> real \<Rightarrow> real \<Rightarrow> real" where
  "viewEnd duration zoomLevel zoomCenter =
     min duration (viewStart duration zoomLevel zoomCenter + visibleDuration duration zoomLevel)"

definition actualViewStart :: "real \<Rightarrow> real \<Rightarrow> real \<Rightarrow> real" where
  "actualViewStart duration zoomLevel zoomCenter =
     (if viewEnd duration zoomLevel zoomCenter = duration
      then max 0 (duration - visibleDuration duration zoomLevel)
      else viewStart duration zoomLevel zoomCenter)"

definition actualViewEnd :: "real \<Rightarrow> real \<Rightarrow> real \<Rightarrow> real" where
  "actualViewEnd duration zoomLevel zoomCenter =
     actualViewStart duration zoomLevel zoomCenter + visibleDuration duration zoomLevel"

text \<open>
  \<open>getTimeFromEvent\<close>: \<open>hasRef\<close> says that \<open>timelineRef.current\<close> is set, \<open>clientX\<close> is
  the pointer's x coordinate, \<open>rectLeft\<close> and \<open>rectWidth\<close> are the track's bounding box.
  For a track of width 0 the code computes \<open>0 / 0\<close> and returns \<open>NaN\<close>, which is \<open>None\<close>
  here.
\<close>

definition getTimeFromEvent ::
  "real \<Rightarrow> real \<Rightarrow> real \<Rightarrow> bool \<Rightarrow> real \<Rightarrow> real \<Rightarrow> real \<Rightarrow> real option" where
  "getTimeFromEvent duration zoomLevel zoomCenter hasRef clientX rectLeft rectWidth =
     (if \<not> hasRef \<or> duration = 0 then Some 0
      else if rectWidth = 0 then None
      else
        let x = max 0 (min (clientX - rectLeft) rectWidth);
            relativeTime = (x / rectWidth) * visibleDuration duration zoomLevel
        in Some (max 0 (min duration (actualViewStart duration zoomLevel zoomCenter + relativeTime))))"

section \<open>Timeline: the drag state machine\<close>

datatype DragMode = DragNone | Create | ExtendStart | ExtendEnd

record TimelineState =
  dragMode :: DragMode
  dragStart :: "real option"
  localHoverTime :: "real option"
  tempRange :: "Range option"

text \<open>The two callbacks the timeline receives as props, as values.\<close>

datatype Callback = OnSeek real | OnRangeSelect "Range option"

definition initialTimeline :: TimelineState where
  "initialTimeline =
     \<lparr>dragMode = DragNone, dragStart = None, localHoverTime = None, tempRange = None\<rparr>"

text \<open>Every handler takes the time that \<open>getTimeFromEvent\<close> computed for its event.\<close>

definition handleMouseDown :: "real \<Rightarrow> TimelineState \<Rightarrow> TimelineState" where
  "handleMouseDown time s = s\<lparr>dragMode := Create, dragStart := Some time, tempRange := None\<rparr>"

definition handleStartHandleMouseDown :: "Range option \<Rightarrow> TimelineState \<Rightarrow> TimelineState" where
  "handleStartHandleMouseDown selectionRange s =
     (case selectionRange of
        None \<Rightarrow> s
      | Some r \<Rightarrow> s\<lparr>dragMode := ExtendStart, tempRange := Some r\<rparr>)"

definition handleEndHandleMouseDown :: "Range option \<Rightarrow> TimelineState \<Rightarrow> TimelineState" where
  "handleEndHandleMouseDown selectionRange s =
     (case selectionRange of
        None \<Rightarrow> s
      | Some r \<Rightarrow> s\<lparr>dragMode := ExtendEnd, tempRange := Some r\<rparr>)"

definition handleGlobalMouseMove :: "real \<Rightarrow> real \<Rightarrow> TimelineState \<Rightarrow> TimelineState" where
  "handleGlobalMouseMove duration time s =
     (let s1 = s\<lparr>localHoverTime := Some time\<rparr> in
      case tempRange s of
        None \<Rightarrow> s1
      | Some r \<Rightarrow>
          if dragMode s = ExtendStart then
            let newStart = min time (range_end r - 0.05)
            in s1\<lparr>tempRange := Some \<lparr>range_start = max 0 newStart, range_end = range_end r\<rparr>\<rparr>
          else if dragMode s = ExtendEnd then
            let newEnd = max time (range_start r + 0.05)
            in s1\<lparr>tempRange := Some \<lparr>range_start = range_start r, range_end = min duration newEnd\<rparr>\<rparr>
          else s1)"

definition handleGlobalMouseUp :: "real \<Rightarrow> TimelineState \<Rightarrow> Callback list \<times> TimelineState" where
  "handleGlobalMouseUp time s =
     (let calls =
        (case (dragMode s, dragStart s, tempRange s) of
           (Create, Some ds, _) \<Rightarrow>
             if \<bar>time - ds\<bar> < 0.1 then [OnSeek time]
             else
               let st = min ds time; en = max ds time
               in [OnRangeSelect (Some \<lparr>range_start = st, range_end = en\<rparr>), OnSeek st]
         | (ExtendStart, _, Some r) \<Rightarrow> [OnRangeSelect (Some r), OnSeek (range_start r)]
         | (ExtendEnd, _, Some r) \<Rightarrow> [OnRangeSelect (Some r), OnSeek (range_start r)]
         | _ \<Rightarrow> [])
      in (calls, s\<lparr>dragMode := DragNone, dragStart := None, tempRange := None\<rparr>))"

definition handleMouseMove :: "real \<Rightarrow> TimelineState \<Rightarrow> TimelineState" where
  "handleMouseMove time s = s\<lparr>localHoverTime := Some time\<rparr>"

definition handleMouseLeave :: "TimelineState \<Rightarrow> TimelineState" where
  "handleMouseLeave s = s\<lparr>localHoverTime := None\<rparr>"

subsection \<open>The earlier timeline component\<close>

text \<open>
  The repository also holds the timeline the zoomable one replaced: a boolean
  \<open>isDragging\<close> instead of drag modes, no handles, and its own click threshold.
\<close>

record LegacyTimelineState =
  isDragging :: bool
  legacy_dragStart :: "real option"
  legacy_localHoverTime :: "real option"

definition legacy_handleMouseDown ::
  "real \<Rightarrow> LegacyTimelineState \<Rightarrow> Callback list \<times> LegacyTimelineState" where
  "legacy_handleMouseDown time s =
     ([OnRangeSelect None], s\<lparr>isDragging := True, legacy_dragStart := Some time\<rparr>)"

definition legacy_handleMouseUp ::
  "real \<Rightarrow> LegacyTimelineState \<Rightarrow> Callback list \<times> LegacyTimelineState" where
  "legacy_handleMouseUp dragEnd s =
     (case legacy_dragStart s of
        None \<Rightarrow> ([], s)
      | Some ds \<Rightarrow>
          if \<not> isDragging s then ([], s)
          else
            ((if \<bar>dragEnd - ds\<bar> < 0.5 then [OnSeek dragEnd, OnRangeSelect None]
              else
                let st = min ds dragEnd; en = max ds dragEnd
                in [OnRangeSelect (Some \<lparr>range_start = st, range_end = en\<rparr>), OnSeek st]),
             s\<lparr>isDragging := False, legacy_dragStart := None\<rparr>))"

section \<open>Content hash of a file\<close>

text \<open>
  A file is the list of its bytes; \<open>file.size\<close> is its length.  Reading the bytes
  (\<open>arrayBuffer\<close>) is taken to succeed.  SHA-256 itself is the platform's
  (\<open>crypto.subtle.digest\<close>, or the library \<open>js-sha256\<close> in the second copy of the
  module, which returns the same digest already in lowercase hex): it is the parameter
  \<open>sha256\<close>, from the message bytes to the digest bytes.
\<close>

type_synonym byte = "8 word"

text \<open>\<open>Blob.slice(start, end)\<close> as the File API defines it; \<open>None\<close> is an omitted \<open>end\<close>.\<close>

definition blob_slice :: "int \<Rightarrow> int option \<Rightarrow> byte list \<Rightarrow> byte list" where
  "blob_slice start end_opt blob =
     (let size = int (length blob);
          relativeStart = (if start < 0 then max (size + start) 0 else min start size);
          relativeEnd =
            (case end_opt of
               None \<Rightarrow> size
             | Some e \<Rightarrow> if e < 0 then max (size + e) 0 else min e size);
          span = max (relativeEnd - relativeStart) 0
      in take (nat span) (drop (nat relativeStart) blob))"

text \<open>\<open>b.toString(16).padStart(2, '0')\<close> for each digest byte, joined.\<close>

definition hexDigit :: "nat \<Rightarrow> char" where
  "hexDigit n = ''0123456789abcdef'' ! n"

definition byte_toString16 :: "byte \<Rightarrow> string" where
  "byte_toString16 b =
     (let n = unat b in
      if n < 16 then [hexDigit n] else [hexDigit (n div 16), hexDigit (n mod 16)])"

definition padStart :: "nat \<Rightarrow> char \<Rightarrow> string \<Rightarrow> string" where
  "padStart targetLength c s = replicate (targetLength - length s) c @ s"

definition toHex :: "byte list \<Rightarrow> string" where
  "toHex hashArray = concat (map (\<lambda>b. padStart 2 CHR ''0'' (byte_toString16 b)) hashArray)"

text \<open>\<open>size.toString()\<close> of a non-negative integer below \<open>10^21\<close>, and \<open>TextEncoder.encode\<close>.\<close>

definition decDigit :: "nat \<Rightarrow> char" where
  "decDigit n = ''0123456789'' ! n"

fun nat_toString :: "nat \<Rightarrow> string" where
  "nat_toString n =
     (if n < 10 then [decDigit n] else nat_toString (n div 10) @ [decDigit (n mod 10)])"

definition textEncode :: "string \<Rightarrow> byte list" where
  "textEncode s = map (\<lambda>c. of_nat (of_char c)) s"

text \<open>The number that a string of decimal digits denotes.\<close>

definition decimalValue :: "string \<Rightarrow> nat" where
  "decimalValue s = foldl (\<lambda>acc c. acc * 10 + (of_char c - 48)) 0 s"

definition generateFileHash :: "(byte list \<Rightarrow> byte list) \<Rightarrow> byte list \<Rightarrow> string" where
  "generateFileHash sha256 file = toHex (sha256 file)"

definition CHUNK_SIZE :: nat where
  "CHUNK_SIZE = 1024 * 1024"

definition generateFastFileHash :: "(byte list \<Rightarrow> byte list) \<Rightarrow> byte list \<Rightarrow> string" where
  "generateFastFileHash sha256 file =
     (if length file \<le> CHUNK_SIZE * 3 then generateFileHash sha256 file
      else
        let size = length file;
            chunk1 = blob_slice 0 (Some (int CHUNK_SIZE)) file;
            midStart = int (size div 2) - int (CHUNK_SIZE div 2);
            chunk2 = blob_slice midStart (Some (midStart + int CHUNK_SIZE)) file;
            chunk3 = blob_slice (- int CHUNK_SIZE) None file;
            chunks = [chunk1, chunk2, chunk3];
            sizeBuffer = textEncode (nat_toString size);
            combined = foldl (\<lambda>acc chunk. acc @ chunk) sizeBuffer chunks
        in toHex (sha256 combined))"

text \<open>
  In the specification's words.  The decimal string of a number is its digits, most
  significant first, each as the byte \<open>48 + digit\<close>.  A lowercase hex string denotes the
  bytes that \<open>spec_hexDecode\<close> reads from it, two characters a byte, with \<open>0\<close> to \<open>9\<close>
  worth 0 to 9 and \<open>a\<close> to \<open>f\<close> worth 10 to 15.  The sampled message is the decimal
  string of the total byte length, the first 1 MiB, the 1 MiB starting at
  \<open>floor(size/2) - 512 KiB\<close>, and the last 1 MiB, in that order.
\<close>

fun spec_decimalDigits :: "nat \<Rightarrow> nat list" where
  "spec_decimalDigits n =
     (if n < 10 then [n] else spec_decimalDigits (n div 10) @ [n mod 10])"

definition spec_decimalBytes :: "nat \<Rightarrow> byte list" where
  "spec_decimalBytes n = map (\<lambda>d. of_nat (48 + d)) (spec_decimalDigits n)"

definition spec_digitsValue :: "nat list \<Rightarrow> nat" where
  "spec_digitsValue ds = foldl (\<lambda>acc d. 10 * acc + d) 0 ds"

definition spec_hexValue :: "char \<Rightarrow> nat" where
  "spec_hexValue c = (if of_char c < (58::nat) then of_char c - 48 else of_char c - 87)"

fun spec_hexDecode :: "string \<Rightarrow> byte list" where
  "spec_hexDecode (h # l # cs) = of_nat (16 * spec_hexValue h + spec_hexValue l) # spec_hexDecode cs"
| "spec_hexDecode cs = []"

definition spec_sampledMessage :: "byte list \<Rightarrow> byte list" where
  "spec_sampledMessage file =
     spec_decimalBytes (length file)
     @ take (1024 * 1024) file
     @ take (1024 * 1024) (drop (length file div 2 - 512 * 1024) file)
     @ drop (length file - 1024 * 1024) file"

section \<open>App: the state the timeline's callbacks act on\<close>

datatype Tool = Pointer | Pen

text \<open>
  The \<open>useState\<close> cells of \<open>App\<close>.  The fields \<open>app_videoId\<close> and \<open>app_duration\<close> are the
  cells \<open>videoId\<close> and \<open>duration\<close>.
\<close>

record 'o AppState =
  currentUser :: "User option"
  isUserLoading :: bool
  showOnboarding :: bool
  app_videoId :: "string option"
  isPlaying :: bool
  currentTime :: real
  app_duration :: real
  isDrawingMode :: bool
  selectedTool :: Tool
  selectionRange :: "Range option"
  annotations :: "'o Annotation list"
  activeAnnotationId :: "string option"

definition handleRangeSelect :: "Range option \<Rightarrow> 'o AppState \<Rightarrow> 'o AppState" where
  "handleRangeSelect rng a =
     (let a1 = a\<lparr>selectionRange := rng\<rparr> in
      if rng \<noteq> None then a1\<lparr>isPlaying := False, activeAnnotationId := None\<rparr> else a1)"

text \<open>\<open>handleSeek\<close> also moves the video element (\<open>seekTo\<close>), which is not part of the state.\<close>

definition handleSeek :: "real \<Rightarrow> 'o AppState \<Rightarrow> 'o AppState" where
  "handleSeek time a = a\<lparr>currentTime := time\<rparr>"

fun applyCallback :: "Callback \<Rightarrow> 'o AppState \<Rightarrow> 'o AppState" where
  "applyCallback (OnSeek time) a = handleSeek time a"
| "applyCallback (OnRangeSelect rng) a = handleRangeSelect rng a"

text \<open>
  The events the timeline sees.  The global \<open>mousemove\<close> and \<open>mouseup\<close> listeners are
  registered only while \<open>dragMode\<close> is not \<open>'none'\<close>.  \<open>SelectionChanged\<close> stands for every
  write to \<open>selectionRange\<close> that \<open>App\<close> makes outside the timeline (selecting an
  annotation, submitting a comment, loading a file).
\<close>

datatype Event =
    TrackMouseDown real
  | StartHandleMouseDown
  | EndHandleMouseDown
  | GlobalMouseMove real
  | GlobalMouseUp real
  | TrackMouseMove real
  | TrackMouseLeave
  | SelectionChanged "Range option"

fun timelineStep ::
  "Event \<Rightarrow> 'o AppState \<times> TimelineState \<Rightarrow> Callback list \<times> 'o AppState \<times> TimelineState" where
  "timelineStep (TrackMouseDown time) (a, s) = ([], a, handleMouseDown time s)"
| "timelineStep StartHandleMouseDown (a, s) =
     ([], a, handleStartHandleMouseDown (selectionRange a) s)"
| "timelineStep EndHandleMouseDown (a, s) =
     ([], a, handleEndHandleMouseDown (selectionRange a) s)"
| "timelineStep (GlobalMouseMove time) (a, s) =
     (if dragMode s = DragNone then ([], a, s)
      else ([], a, handleGlobalMouseMove (app_duration a) time s))"
| "timelineStep (GlobalMouseUp time) (a, s) =
     (if dragMode s = DragNone then ([], a, s)
      else
        case handleGlobalMouseUp time s of
          (calls, s') \<Rightarrow> (calls, fold applyCallback calls a, s'))"
| "timelineStep (TrackMouseMove time) (a, s) = ([], a, handleMouseMove time s)"
| "timelineStep TrackMouseLeave (a, s) = ([], a, handleMouseLeave s)"
| "timelineStep (SelectionChanged rng) (a, s) = ([], a\<lparr>selectionRange := rng\<rparr>, s)"

text \<open>A sequence of events, with every callback invocation it caused, in order.\<close>

fun runTimeline ::
  "Event list \<Rightarrow> 'o AppState \<times> TimelineState \<Rightarrow> Callback list \<times> 'o AppState \<times> TimelineState" where
  "runTimeline [] st = ([], st)"
| "runTimeline (e # es) st =
     (case timelineStep e st of
        (calls, st') \<Rightarrow>
          (case runTimeline es st' of (calls', st'') \<Rightarrow> (calls @ calls', st'')))"

fun committedRanges :: "Callback list \<Rightarrow> Range list" where
  "committedRanges [] = []"
| "committedRanges (OnRangeSelect (Some r) # cs) = r # committedRanges cs"
| "committedRanges (c # cs) = committedRanges cs"

definition inBounds :: "real \<Rightarrow> Range \<Rightarrow> bool" where
  "inBounds duration r \<longleftrightarrow>
     0 \<le> range_start r \<and> range_start r \<le> range_end r \<and> range_end r \<le> duration"

text \<open>The minimum width of a range that is being resized: 0.05 s.\<close>

definition minGap :: "Range \<Rightarrow> bool" where
  "minGap r \<longleftrightarrow> range_start r + 0.05 \<le> range_end r"

definition timeOk :: "real \<Rightarrow> real \<Rightarrow> bool" where
  "timeOk duration time \<longleftrightarrow> 0 \<le> time \<and> time \<le> duration"

text \<open>
  What the range invariant takes for granted about an event: its time is one that
  \<open>getTimeFromEvent\<close> returned, in \<open>[0, duration]\<close>, and a selection range written by
  \<open>App\<close> is within the bounds.
\<close>

fun eventOk :: "real \<Rightarrow> Event \<Rightarrow> bool" where
  "eventOk duration (TrackMouseDown time) = timeOk duration time"
| "eventOk duration (GlobalMouseMove time) = timeOk duration time"
| "eventOk duration (GlobalMouseUp time) = timeOk duration time"
| "eventOk duration (TrackMouseMove time) = timeOk duration time"
| "eventOk duration (SelectionChanged (Some r)) = inBounds duration r"
| "eventOk duration _ = True"

fun optInBounds :: "real \<Rightarrow> Range option \<Rightarrow> bool" where
  "optInBounds duration None = True"
| "optInBounds duration (Some r) = inBounds duration r"

fun optTimeOk :: "real \<Rightarrow> real option \<Rightarrow> bool" where
  "optTimeOk duration None = True"
| "optTimeOk duration (Some time) = timeOk duration time"

definition stateOk :: "real \<Rightarrow> 'o AppState \<times> TimelineState \<Rightarrow> bool" where
  "stateOk duration st \<longleftrightarrow>
     app_duration (fst st) = duration
     \<and> optInBounds duration (selectionRange (fst st))
     \<and> optInBounds duration (tempRange (snd st))
     \<and> optTimeOk duration (dragStart (snd st))"

section \<open>App: which drawing is shown\<close>

text \<open>
  The two memoised values of \<open>App\<close>.  A \<open>useMemo\<close> value is a function of its
  dependencies, so each is a function of the state.  \<open>Array.join\<close> and \<open>String.split\<close>
  are \<open>joinWith\<close> and \<open>splitOn\<close>; \<open>Array.sort\<close> without a comparator orders strings by
  code unit, as \<open>sort\<close> does on \<^typ>\<open>string\<close>.  An empty string is falsy.
\<close>

definition TIME_EPSILON :: real where
  "TIME_EPSILON = 0.1"

definition isTimeInRange :: "real \<Rightarrow> real \<Rightarrow> real \<Rightarrow> bool" where
  "isTimeInRange time start end_time \<longleftrightarrow>
     time \<ge> (start - TIME_EPSILON) \<and> time \<le> (end_time + TIME_EPSILON)"

fun joinWith :: "char \<Rightarrow> string list \<Rightarrow> string" where
  "joinWith sep [] = []"
| "joinWith sep [x] = x"
| "joinWith sep (x # y # ys) = x @ sep # joinWith sep (y # ys)"

fun splitOn :: "char \<Rightarrow> string \<Rightarrow> string list" where
  "splitOn sep [] = [[]]"
| "splitOn sep (c # cs) =
     (if c = sep then [] # splitOn sep cs
      else case splitOn sep cs of
             w # ws \<Rightarrow> (c # w) # ws
           | [] \<Rightarrow> [[c]])"

definition hasDrawingInRange :: "real \<Rightarrow> 'o Annotation \<Rightarrow> bool" where
  "hasDrawingInRange time ann \<longleftrightarrow>
     drawingData ann \<noteq> None \<and> isTimeInRange time (startTime ann) (endTime ann)"

definition visibleAnnotationIdsString :: "'o AppState \<Rightarrow> string" where
  "visibleAnnotationIdsString a =
     (if isDrawingMode a then []
      else
        case activeAnnotationId a of
          Some (c # cs) \<Rightarrow>
            (case find (\<lambda>x. id x = c # cs) (annotations a) of
               Some activeAnn \<Rightarrow>
                 if hasDrawingInRange (currentTime a) activeAnn then id activeAnn else []
             | None \<Rightarrow> [])
        | _ \<Rightarrow>
            joinWith CHR '',''
              (sort (map id (filter (hasDrawingInRange (currentTime a)) (annotations a)))))"

text \<open>The array \<open>visibleAnns\<close> and the flattened object list inside \<open>activeDrawing\<close>.\<close>

definition visibleAnns :: "'o AppState \<Rightarrow> 'o Annotation list" where
  "visibleAnns a =
     (let ids = splitOn CHR '','' (visibleAnnotationIdsString a)
      in filter (\<lambda>x. id x \<in> set ids) (annotations a))"

definition drawnObjects :: "'o Annotation \<Rightarrow> 'o list" where
  "drawnObjects ann = (case drawingData ann of None \<Rightarrow> [] | Some d \<Rightarrow> objects d)"

definition activeDrawing :: "'o AppState \<Rightarrow> 'o DrawingPath option" where
  "activeDrawing a =
     (if visibleAnnotationIdsString a = [] then None
      else if length (visibleAnns a) = 0 then None
      else if length (visibleAnns a) = 1 then drawingData (visibleAnns a ! 0)
      else Some \<lparr>version = ''5.3.0'', objects = concat (map drawnObjects (visibleAnns a))\<rparr>)"

text \<open>
  In the specification's words: every annotation with a drawing payload whose range
  contains the current time within the tolerance of 0.1 s, in the order of the store.
\<close>

definition spec_visibleDrawings :: "'o AppState \<Rightarrow> 'o Annotation list" where
  "spec_visibleDrawings a =
     filter (\<lambda>ann. drawingData ann \<noteq> None
                \<and> startTime ann - 0.1 \<le> currentTime a \<and> currentTime a \<le> endTime ann + 0.1)
       (annotations a)"

definition noSelection :: "'o AppState \<Rightarrow> bool" where
  "noSelection a \<longleftrightarrow> activeAnnotationId a = None \<or> activeAnnotationId a = Some []"

text \<open>
  What the resolver needs of the identifiers, and what identifiers issued by the server
  (UUID primary keys) have: pairwise distinct, not empty, without a comma.
\<close>

definition wellFormedIds :: "'o Annotation list \<Rightarrow> bool" where
  "wellFormedIds anns \<longleftrightarrow>
     distinct (map id anns) \<and> list_all (\<lambda>x. id x \<noteq> [] \<and> CHR '','' \<notin> set (id x)) anns"

text \<open>The shape of a UUID: 36 characters, each a lowercase hex digit or a hyphen.\<close>

definition uuidShaped :: "string \<Rightarrow> bool" where
  "uuidShaped s \<longleftrightarrow> length s = 36 \<and> list_all (\<lambda>c. c \<in> set ''0123456789abcdef-'') s"

section \<open>The local annotation store\<close>

text \<open>
  \<open>services/storage.ts\<close> keeps one JSON array under one \<open>localStorage\<close> key.  The model
  holds the array as parsed (\<open>JSON.parse\<close> of what \<open>JSON.stringify\<close> wrote); \<open>None\<close> is
  the absent key.  \<open>Array.sort\<close> is stable, as \<open>sort_key\<close> is.
\<close>

type_synonym 'o Storage = "'o Annotation list option"

definition stored :: "'o Storage \<Rightarrow> 'o Annotation list" where
  "stored st = (case st of None \<Rightarrow> [] | Some all_anns \<Rightarrow> all_anns)"

definition storage_getAnnotations :: "string \<Rightarrow> 'o Storage \<Rightarrow> 'o Annotation list" where
  "storage_getAnnotations vid st =
     (case st of
        None \<Rightarrow> []
      | Some all_anns \<Rightarrow> sort_key startTime (filter (\<lambda>a. videoId a = vid) all_anns))"

definition storage_saveAnnotation :: "'o Annotation \<Rightarrow> 'o Storage \<Rightarrow> 'o Storage" where
  "storage_saveAnnotation annotation st = Some (stored st @ [annotation])"

definition clearAnnotations :: "string \<Rightarrow> 'o Storage \<Rightarrow> 'o Storage" where
  "clearAnnotations vid st =
     (case st of
        None \<Rightarrow> None
      | Some all_anns \<Rightarrow> Some (filter (\<lambda>a. videoId a \<noteq> vid) all_anns))"

section \<open>The API client and the handlers that call it\<close>

text \<open>
  A call of \<open>fetch\<close> ends in one of three ways: the promise rejects (network failure), the
  response is not \<open>ok\<close> (an HTTP error status), or it is \<open>ok\<close> with a body.  A function of
  \<open>services/api.ts\<close> that throws returns \<open>Inl\<close> of the message; one that catches returns
  what it logs and its fallback value.
\<close>

datatype 'a Response = FetchRejected | HttpError nat | HttpOk 'a

definition failed :: "'a Response \<Rightarrow> bool" where
  "failed resp = (case resp of HttpOk body \<Rightarrow> False | _ \<Rightarrow> True)"

text \<open>What a handler does besides updating the state, in order.\<close>

datatype Effect =
    Alert string
  | ConsoleError string
  | ConfirmImport
  | DownloadFile
  | PlayerSeekTo real
  | PlayerClearCanvas

definition alerts :: "Effect list \<Rightarrow> string list" where
  "alerts effs = concat (map (\<lambda>e. case e of Alert msg \<Rightarrow> [msg] | _ \<Rightarrow> []) effs)"

record 'e ExportData =
  exportVersion :: string
  exportedAt :: string
  videoHash :: string
  export_annotations :: "'e list"

definition api_createUser :: "User Response \<Rightarrow> string + User" where
  "api_createUser resp =
     (case resp of
        FetchRejected \<Rightarrow> Inl ''Failed to fetch''
      | HttpError status \<Rightarrow> Inl ''Failed to create user''
      | HttpOk user \<Rightarrow> Inr user)"

definition api_getUser :: "User Response \<Rightarrow> Effect list \<times> User option" where
  "api_getUser resp =
     (case resp of
        FetchRejected \<Rightarrow> ([ConsoleError ''Error fetching user:''], None)
      | HttpError status \<Rightarrow>
          if status = 404 then ([], None) else ([ConsoleError ''Error fetching user:''], None)
      | HttpOk user \<Rightarrow> ([], Some user))"

definition api_getAnnotations ::
  "'o Annotation list Response \<Rightarrow> Effect list \<times> 'o Annotation list" where
  "api_getAnnotations resp =
     (case resp of
        FetchRejected \<Rightarrow> ([ConsoleError ''Error fetching annotations:''], [])
      | HttpError status \<Rightarrow> ([ConsoleError ''Error fetching annotations:''], [])
      | HttpOk data \<Rightarrow> ([], data))"

definition api_saveAnnotation :: "'o Annotation Response \<Rightarrow> string + 'o Annotation" where
  "api_saveAnnotation resp =
     (case resp of
        FetchRejected \<Rightarrow> Inl ''Failed to fetch''
      | HttpError status \<Rightarrow> Inl ''Failed to save annotation''
      | HttpOk data \<Rightarrow> Inr data)"

definition api_exportAnnotations :: "'e ExportData Response \<Rightarrow> string + 'e ExportData" where
  "api_exportAnnotations resp =
     (case resp of
        FetchRejected \<Rightarrow> Inl ''Failed to fetch''
      | HttpError status \<Rightarrow> Inl ''Failed to export annotations''
      | HttpOk data \<Rightarrow> Inr data)"

definition api_importAnnotations :: "nat Response \<Rightarrow> string + nat" where
  "api_importAnnotations resp =
     (case resp of
        FetchRejected \<Rightarrow> Inl ''Failed to fetch''
      | HttpError status \<Rightarrow> Inl ''Failed to import annotations''
      | HttpOk imported \<Rightarrow> Inr imported)"

text \<open>
  The handlers of \<open>App\<close>, each with the response its API call receives.  The request a
  handler sends (comment text, attachments, the user's id) does not influence what it does
  with the response and is left out.
\<close>

definition initUser :: "User option \<Rightarrow> User Response \<Rightarrow> 'o AppState \<Rightarrow> Effect list \<times> 'o AppState" where
  "initUser storedUser resp a =
     (case storedUser of
        None \<Rightarrow> ([], a\<lparr>showOnboarding := True, isUserLoading := False\<rparr>)
      | Some su \<Rightarrow>
          (case api_getUser resp of
             (effs, Some dbUser) \<Rightarrow> (effs, a\<lparr>currentUser := Some dbUser, isUserLoading := False\<rparr>)
           | (effs, None) \<Rightarrow> (effs, a\<lparr>showOnboarding := True, isUserLoading := False\<rparr>)))"

definition loadAnnotations ::
  "'o Annotation list Response \<Rightarrow> 'o AppState \<Rightarrow> Effect list \<times> 'o AppState" where
  "loadAnnotations resp a =
     (case app_videoId a of
        None \<Rightarrow> ([], a)
      | Some vid \<Rightarrow>
          (case api_getAnnotations resp of (effs, loaded) \<Rightarrow> (effs, a\<lparr>annotations := loaded\<rparr>)))"

definition handleUserCreate :: "User Response \<Rightarrow> 'o AppState \<Rightarrow> Effect list \<times> 'o AppState" where
  "handleUserCreate resp a =
     (case api_createUser resp of
        Inr user \<Rightarrow>
          ([], a\<lparr>currentUser := Some user, showOnboarding := False, isUserLoading := False\<rparr>)
      | Inl err \<Rightarrow>
          ([ConsoleError ''Failed to create user:'',
            Alert ''Failed to create user. Please make sure the server is running.''],
           a\<lparr>isUserLoading := False\<rparr>))"

definition handleToolChange :: "Tool \<Rightarrow> 'o AppState \<Rightarrow> Effect list \<times> 'o AppState" where
  "handleToolChange tool a =
     (if tool = Pen then
        ([PlayerClearCanvas],
         a\<lparr>selectedTool := tool, isDrawingMode := True, isPlaying := False,
           activeAnnotationId := None\<rparr>)
      else ([], a\<lparr>selectedTool := tool, isDrawingMode := False\<rparr>))"

definition handleAddComment ::
  "'o DrawingPath option \<Rightarrow> 'o Annotation Response \<Rightarrow> 'o AppState \<Rightarrow> Effect list \<times> 'o AppState" where
  "handleAddComment currentDrawing resp a =
     (if app_videoId a = None \<or> currentUser a = None then ([], a)
      else
        let start = (case selectionRange a of Some r \<Rightarrow> range_start r | None \<Rightarrow> currentTime a);
            end_time =
              (case selectionRange a of
                 Some r \<Rightarrow> range_end r
               | None \<Rightarrow>
                   if currentDrawing \<noteq> None then min (currentTime a + 1) (app_duration a)
                   else currentTime a)
        in case api_saveAnnotation resp of
             Inr newAnnotation \<Rightarrow>
               (let a1 = a\<lparr>annotations := sort_key startTime (annotations a @ [newAnnotation]),
                          activeAnnotationId := Some (id newAnnotation),
                          currentTime := start,
                          selectionRange := Some \<lparr>range_start = start, range_end = end_time\<rparr>\<rparr>
                in if selectedTool a = Pen then
                     (case handleToolChange Pointer a1 of
                        (effs, a2) \<Rightarrow> (PlayerSeekTo start # effs, a2))
                   else ([PlayerSeekTo start, PlayerClearCanvas], a1))
           | Inl err \<Rightarrow>
               ([ConsoleError ''Failed to save annotation:'',
                 Alert ''Failed to save annotation. Please make sure the server is running.''],
                a))"

definition handleExport :: "'e ExportData Response \<Rightarrow> 'o AppState \<Rightarrow> Effect list \<times> 'o AppState" where
  "handleExport resp a =
     (if app_videoId a = None then ([], a)
      else
        case api_exportAnnotations resp of
          Inr data \<Rightarrow> ([DownloadFile], a)
        | Inl err \<Rightarrow>
            ([ConsoleError ''Failed to export:'', Alert ''Failed to export annotations.''], a))"

text \<open>
  \<open>handleImportFile\<close>: \<open>file\<close> is \<open>None\<close> when no file was chosen, \<open>Some None\<close> when its text
  is not JSON, \<open>Some (Some data)\<close> otherwise; \<open>confirmed\<close> is the answer to
  \<open>window.confirm\<close>, asked only when the hashes differ.
\<close>

definition handleImportFile ::
  "'e ExportData option option \<Rightarrow> bool \<Rightarrow> nat Response \<Rightarrow> 'o Annotation list Response
     \<Rightarrow> 'o AppState \<Rightarrow> Effect list \<times> 'o AppState" where
  "handleImportFile file confirmed importResp reloadResp a =
     (case (file, app_videoId a, currentUser a) of
        (Some parsed, Some vid, Some user) \<Rightarrow>
          (case parsed of
             None \<Rightarrow>
               ([ConsoleError ''Failed to import:'',
                 Alert ''Failed to import annotations. Make sure the file is valid JSON.''], a)
           | Some data \<Rightarrow>
               let asked = (if videoHash data \<noteq> vid then [ConfirmImport] else [])
               in if videoHash data \<noteq> vid \<and> \<not> confirmed then (asked, a)
                  else
                    case api_importAnnotations importResp of
                      Inl err \<Rightarrow>
                        (asked @
                         [ConsoleError ''Failed to import:'',
                          Alert ''Failed to import annotations. Make sure the file is valid JSON.''],
                         a)
                    | Inr imported \<Rightarrow>
                        (case api_getAnnotations reloadResp of
                           (effs, loaded) \<Rightarrow>
                             (asked @ effs @
                              [Alert (''Successfully imported '' @ nat_toString imported
                                      @ '' annotations!'')],
                              a\<lparr>annotations := loaded\<rparr>)))
      | _ \<Rightarrow> ([], a))"

section \<open>Concrete inputs\<close>

text \<open>Drawings to resolve: a store of annotations at a playback time, nothing selected.\<close>

definition exampleUser :: User where
  "exampleUser = \<lparr>user_id = ''u1'', name = ''Ada'', avatar = None\<rparr>"

definition drawingAnn ::
  "string \<Rightarrow> real \<Rightarrow> real \<Rightarrow> string \<Rightarrow> string list \<Rightarrow> string Annotation" where
  "drawingAnn i s e v objs =
     \<lparr>id = i, videoId = ''v1'', startTime = s, endTime = e, author = exampleUser,
      text_of = [], createdAt = 0, type_of = Drawing,
      drawingData = Some \<lparr>version = v, objects = objs\<rparr>, attachments = []\<rparr>"

definition commentAnn :: "string \<Rightarrow> real \<Rightarrow> real \<Rightarrow> string Annotation" where
  "commentAnn i s e =
     \<lparr>id = i, videoId = ''v1'', startTime = s, endTime = e, author = exampleUser,
      text_of = ''note'', createdAt = 0, type_of = Comment,
      drawingData = None, attachments = []\<rparr>"

definition resolverApp :: "string Annotation list \<Rightarrow> real \<Rightarrow> string AppState" where
  "resolverApp anns time =
     \<lparr>currentUser = Some exampleUser, isUserLoading = False, showOnboarding = False,
      app_videoId = Some ''v1'', isPlaying = True, currentTime = time, app_duration = 120,
      isDrawingMode = False, selectedTool = Pointer, selectionRange = None,
      annotations = anns, activeAnnotationId = None\<rparr>"

definition exampleStore :: "string Annotation list" where
  "exampleStore =
     [drawingAnn ''b'' 5 8 ''4.6.0'' [''path1''],
      commentAnn ''c'' 6 7,
      drawingAnn ''a'' 6 7 ''6.0.0'' [''rect'', ''circle'']]"

text \<open>The same store with identifiers as the server issues them.\<close>

definition uuidStore :: "string Annotation list" where
  "uuidStore =
     [drawingAnn ''7c9e6679-7425-40de-944b-e07fc1f90ae7'' 5 8 ''4.6.0'' [''path1''],
      commentAnn ''550e8400-e29b-41d4-a716-446655440000'' 6 7,
      drawingAnn ''16fd2706-8baf-433b-82eb-8c7fada847da'' 6 7 ''6.0.0'' [''rect'', ''circle'']]"

text \<open>A session of the timeline, and a timeline in the middle of a resize.\<close>

definition exampleApp :: "unit AppState" where
  "exampleApp =
     \<lparr>currentUser = None, isUserLoading = False, showOnboarding = False,
      app_videoId = Some ''v1'', isPlaying = True, currentTime = 0, app_duration = 120,
      isDrawingMode = False, selectedTool = Pointer,
      selectionRange = Some \<lparr>range_start = 30, range_end = 45\<rparr>,
      annotations = [], activeAnnotationId = None\<rparr>"

definition exampleGesture :: "Event list" where
  "exampleGesture =
     [TrackMouseDown 10, GlobalMouseMove 15, GlobalMouseUp 20,
      StartHandleMouseDown, GlobalMouseMove 5, GlobalMouseUp 5,
      EndHandleMouseDown, GlobalMouseMove 120, GlobalMouseUp 120]"

definition resizingStart :: TimelineState where
  "resizingStart =
     \<lparr>dragMode = ExtendStart, dragStart = None, localHoverTime = None,
      tempRange = Some \<lparr>range_start = 30, range_end = 45\<rparr>\<rparr>"

definition resizingEnd :: TimelineState where
  "resizingEnd =
     \<lparr>dragMode = ExtendEnd, dragStart = None, localHoverTime = None,
      tempRange = Some \<lparr>range_start = 30, range_end = 45\<rparr>\<rparr>"

text \<open>Two files at the boundary: 3 MiB + 1 byte, and exactly 3 MiB.\<close>

definition bigFile :: "byte list" where
  "bigFile = replicate (1024 * 1024) 171 @ replicate (1024 * 1024 + 1) 205 @ replicate (1024 * 1024) 239"

definition exactFile :: "byte list" where
  "exactFile = replicate (1024 * 1024) 171 @ replicate (1024 * 1024) 205 @ replicate (1024 * 1024) 239"

text \<open>An annotation of a second video.\<close>

definition otherVideoAnn :: "string Annotation" where
  "otherVideoAnn = (commentAnn ''d'' 1 2)\<lparr>videoId := ''v2''\<rparr>"

text \<open>An export file of another video.\<close>

definition exampleExport :: "unit ExportData" where
  "exampleExport =
     \<lparr>exportVersion = ''1.0'', exportedAt = ''2026-01-01'', videoHash = ''v0'',
      export_annotations = []\<rparr>"

section \<open>Theorems\<close>

lemmas timeline_defs =
  exampleApp_def initialTimeline_def handleMouseDown_def handleStartHandleMouseDown_def
  handleEndHandleMouseDown_def handleGlobalMouseMove_def handleGlobalMouseUp_def
  handleSeek_def handleRangeSelect_def Let_def

lemma visibleDuration_bounds:
  assumes "0 \<le> duration" and "1 \<le> zoomLevel"
  shows "0 \<le> visibleDuration duration zoomLevel"
    and "visibleDuration duration zoomLevel \<le> duration"
proof -
  from assms show "0 \<le> visibleDuration duration zoomLevel"
    by (simp add: visibleDuration_def)
  from assms have "duration / zoomLevel \<le> duration / 1"
    by (intro divide_left_mono) simp_all
  then show "visibleDuration duration zoomLevel \<le> duration"
    by (simp add: visibleDuration_def)
qed

lemma ZOOM_LEVELS_ge_1: "z \<in> set ZOOM_LEVELS \<Longrightarrow> 1 \<le> z"
  by (auto simp: ZOOM_LEVELS_def)

subsection \<open>The zoom window\<close>

lemma actualViewStart_nonneg: "0 \<le> actualViewStart duration zoomLevel zoomCenter"
  by (simp add: actualViewStart_def viewStart_def)

lemma actualViewEnd_le_duration:
  assumes "0 \<le> duration" and "1 \<le> zoomLevel"
  shows "actualViewEnd duration zoomLevel zoomCenter \<le> duration"
proof (cases "viewEnd duration zoomLevel zoomCenter = duration")
  case True
  from assms have "visibleDuration duration zoomLevel \<le> duration"
    by (rule visibleDuration_bounds)
  with True show ?thesis
    by (simp add: actualViewEnd_def actualViewStart_def)
next
  case False
  then have "viewStart duration zoomLevel zoomCenter + visibleDuration duration zoomLevel < duration"
    by (simp add: viewEnd_def min_def split: if_splits)
  with False show ?thesis
    by (simp add: actualViewEnd_def actualViewStart_def)
qed

lemma window_shifted_left:
  assumes "0 \<le> duration" and "1 \<le> zoomLevel"
    and "duration \<le> viewStart duration zoomLevel zoomCenter + visibleDuration duration zoomLevel"
  shows "actualViewEnd duration zoomLevel zoomCenter = duration"
proof -
  from assms(3) have "viewEnd duration zoomLevel zoomCenter = duration"
    by (simp add: viewEnd_def)
  moreover from assms(1,2) have "visibleDuration duration zoomLevel \<le> duration"
    by (rule visibleDuration_bounds)
  ultimately show ?thesis
    by (simp add: actualViewEnd_def actualViewStart_def)
qed

text \<open>
  C2.  For every duration \<open>\<ge> 0\<close>, every zoom level of \<open>ZOOM_LEVELS = [1, 2, 4, 8, 16]\<close> and
  every zoom centre, the window \<open>[actualViewStart, actualViewEnd]\<close> lies in \<open>[0, duration]\<close>
  and is exactly \<open>duration / zoomLevel\<close> wide; when the window started at \<open>viewStart\<close> would
  reach or pass \<open>duration\<close>, the window's right edge is \<open>duration\<close>.
\<close>

theorem zoom_window_contained:
  assumes "0 \<le> duration" and "zoomLevel \<in> set ZOOM_LEVELS"
  shows "0 \<le> actualViewStart duration zoomLevel zoomCenter
       \<and> actualViewStart duration zoomLevel zoomCenter \<le> actualViewEnd duration zoomLevel zoomCenter
       \<and> actualViewEnd duration zoomLevel zoomCenter \<le> duration
       \<and> actualViewEnd duration zoomLevel zoomCenter - actualViewStart duration zoomLevel zoomCenter
           = duration / zoomLevel
       \<and> (duration \<le> viewStart duration zoomLevel zoomCenter + visibleDuration duration zoomLevel
            \<longrightarrow> actualViewEnd duration zoomLevel zoomCenter = duration)"
proof -
  from assms(2) have z: "1 \<le> zoomLevel"
    by (rule ZOOM_LEVELS_ge_1)
  have "0 \<le> visibleDuration duration zoomLevel"
    using assms(1) z by (rule visibleDuration_bounds)
  then have "actualViewStart duration zoomLevel zoomCenter \<le> actualViewEnd duration zoomLevel zoomCenter"
    by (simp add: actualViewEnd_def)
  moreover have "actualViewEnd duration zoomLevel zoomCenter - actualViewStart duration zoomLevel zoomCenter
      = duration / zoomLevel"
    by (simp add: actualViewEnd_def visibleDuration_def)
  ultimately show ?thesis
    using actualViewStart_nonneg actualViewEnd_le_duration [OF assms(1) z]
      window_shifted_left [OF assms(1) z]
    by blast
qed

theorem zoom_window_contained_witness:
  "(0::real) \<le> 120 \<and> 4 \<in> set ZOOM_LEVELS
   \<and> 0 \<le> actualViewStart 120 4 110
   \<and> actualViewStart 120 4 110 \<le> actualViewEnd 120 4 110
   \<and> actualViewEnd 120 4 110 \<le> 120
   \<and> actualViewEnd 120 4 110 - actualViewStart 120 4 110 = 120 / 4
   \<and> 120 \<le> viewStart 120 4 110 + visibleDuration 120 4
   \<and> actualViewEnd 120 4 110 = 120"
proof -
  have d: "(0::real) \<le> 120" by simp
  have z: "(4::real) \<in> set ZOOM_LEVELS" by (simp add: ZOOM_LEVELS_def)
  have n: "(120::real) \<le> viewStart 120 4 110 + visibleDuration 120 4"
    by (simp add: viewStart_def visibleDuration_def)
  from zoom_window_contained [OF d z, of 110] d z n show ?thesis
    by blast
qed

lemma zoom_window_example:
  "actualViewStart 120 4 35 = 20 \<and> actualViewEnd 120 4 35 = 50"
  by (simp add: actualViewEnd_def actualViewStart_def viewEnd_def viewStart_def visibleDuration_def)

subsection \<open>The drag state machine: click or drag\<close>

lemma move_create:
  assumes "dragMode s = Create"
  shows "dragMode (handleGlobalMouseMove d t s) = Create"
    and "dragStart (handleGlobalMouseMove d t s) = dragStart s"
  using assms by (simp_all add: handleGlobalMouseMove_def Let_def split: option.split)

lemma run_moves_create:
  assumes "dragMode s = Create"
  shows "\<exists>s'. runTimeline (map GlobalMouseMove ms @ es) (a, s) = runTimeline es (a, s')
           \<and> dragMode s' = Create \<and> dragStart s' = dragStart s"
  using assms
proof (induction ms arbitrary: s)
  case Nil
  then show ?case by auto
next
  case (Cons m ms)
  let ?s1 = "handleGlobalMouseMove (app_duration a) m s"
  from Cons.prems have c: "dragMode ?s1 = Create" and d: "dragStart ?s1 = dragStart s"
    by (rule move_create)+
  from Cons.IH [OF c] obtain s' where
    "runTimeline (map GlobalMouseMove ms @ es) (a, ?s1) = runTimeline es (a, s')"
    "dragMode s' = Create" "dragStart s' = dragStart ?s1"
    by blast
  with d Cons.prems show ?case
    by (intro exI [of _ s']) simp
qed

lemma up_create:
  assumes "dragMode s = Create" and "dragStart s = Some anchor"
  shows "timelineStep (GlobalMouseUp t) (a, s) =
     (if \<bar>t - anchor\<bar> < 0.1 then
        ([OnSeek t], handleSeek t a, s\<lparr>dragMode := DragNone, dragStart := None, tempRange := None\<rparr>)
      else
        ([OnRangeSelect (Some \<lparr>range_start = min anchor t, range_end = max anchor t\<rparr>),
          OnSeek (min anchor t)],
         handleSeek (min anchor t)
           (handleRangeSelect (Some \<lparr>range_start = min anchor t, range_end = max anchor t\<rparr>) a),
         s\<lparr>dragMode := DragNone, dragStart := None, tempRange := None\<rparr>))"
  using assms by (simp add: handleGlobalMouseUp_def Let_def)

text \<open>
  C1.  A drag that begins on the empty track (\<open>TrackMouseDown anchor\<close>, which enters
  \<open>Create\<close>), goes through any pointer moves and ends with pointer-up at \<open>t\<close>: when
  \<open>\<bar>t - anchor\<bar> < 0.1\<close> the only callback is \<open>onSeek t\<close> and the selection range of
  \<open>App\<close> is what it was; otherwise \<open>[min anchor t, max anchor t]\<close> is committed as the
  selection range and the playhead seeks to its start.  The machine is idle afterwards.
\<close>

theorem create_drag_pointer_up:
  fixes a :: "'o AppState"
  assumes "runTimeline (TrackMouseDown anchor # map GlobalMouseMove ms @ [GlobalMouseUp t]) (a, s)
             = (calls, a', s')"
  shows "dragMode s' = DragNone
    \<and> (if \<bar>t - anchor\<bar> < 0.1
        then calls = [OnSeek t] \<and> selectionRange a' = selectionRange a \<and> currentTime a' = t
        else calls = [OnRangeSelect (Some \<lparr>range_start = min anchor t, range_end = max anchor t\<rparr>),
                      OnSeek (min anchor t)]
           \<and> selectionRange a' = Some \<lparr>range_start = min anchor t, range_end = max anchor t\<rparr>
           \<and> currentTime a' = min anchor t)"
proof -
  let ?s0 = "handleMouseDown anchor s"
  have c: "dragMode ?s0 = Create" and d: "dragStart ?s0 = Some anchor"
    by (simp_all add: handleMouseDown_def)
  from run_moves_create [OF c, of ms "[GlobalMouseUp t]" a] obtain s1 where
    r: "runTimeline (map GlobalMouseMove ms @ [GlobalMouseUp t]) (a, ?s0)
          = runTimeline [GlobalMouseUp t] (a, s1)"
    and c1: "dragMode s1 = Create" and d1: "dragStart s1 = dragStart ?s0"
    by blast
  from d d1 have d2: "dragStart s1 = Some anchor" by simp
  from assms r have "runTimeline [GlobalMouseUp t] (a, s1) = (calls, a', s')"
    by simp
  then have "timelineStep (GlobalMouseUp t) (a, s1) = (calls, a', s')"
    by (simp split: prod.splits)
  with up_create [OF c1 d2, of t a] show ?thesis
    by (auto simp: handleSeek_def handleRangeSelect_def split: if_splits)
qed

theorem create_drag_pointer_up_witness:
  "runTimeline (TrackMouseDown 10 # map GlobalMouseMove [10.02] @ [GlobalMouseUp 10.05])
      (exampleApp, initialTimeline)
     = ([OnSeek 10.05], exampleApp\<lparr>currentTime := 10.05\<rparr>,
        initialTimeline\<lparr>localHoverTime := Some 10.02\<rparr>)
   \<and> selectionRange (exampleApp\<lparr>currentTime := 10.05\<rparr>) = selectionRange exampleApp
   \<and> currentTime (exampleApp\<lparr>currentTime := 10.05\<rparr>) = 10.05
   \<and> runTimeline (TrackMouseDown 10 # map GlobalMouseMove [10.1] @ [GlobalMouseUp 10.2])
      (exampleApp, initialTimeline)
     = ([OnRangeSelect (Some \<lparr>range_start = 10, range_end = 10.2\<rparr>), OnSeek 10],
        exampleApp\<lparr>selectionRange := Some \<lparr>range_start = 10, range_end = 10.2\<rparr>,
          isPlaying := False, activeAnnotationId := None, currentTime := 10\<rparr>,
        initialTimeline\<lparr>localHoverTime := Some 10.1\<rparr>)
   \<and> dragMode (initialTimeline\<lparr>localHoverTime := Some 10.1\<rparr>) = DragNone"
proof -
  have click: "runTimeline (TrackMouseDown 10 # map GlobalMouseMove [10.02] @ [GlobalMouseUp 10.05])
      (exampleApp, initialTimeline)
     = ([OnSeek 10.05], exampleApp\<lparr>currentTime := 10.05\<rparr>,
        initialTimeline\<lparr>localHoverTime := Some 10.02\<rparr>)"
    by (simp add: timeline_defs)
  have drag: "runTimeline (TrackMouseDown 10 # map GlobalMouseMove [10.1] @ [GlobalMouseUp 10.2])
      (exampleApp, initialTimeline)
     = ([OnRangeSelect (Some \<lparr>range_start = 10, range_end = 10.2\<rparr>), OnSeek 10],
        exampleApp\<lparr>selectionRange := Some \<lparr>range_start = 10, range_end = 10.2\<rparr>,
          isPlaying := False, activeAnnotationId := None, currentTime := 10\<rparr>,
        initialTimeline\<lparr>localHoverTime := Some 10.1\<rparr>)"
    by (simp add: timeline_defs)
  from create_drag_pointer_up [OF click] create_drag_pointer_up [OF drag] click drag
  show ?thesis
    by simp
qed

text \<open>
  The earlier timeline component decides differently: its click threshold is 0.5 s, and both
  its mouse-down and its click clear the selection range.
\<close>

lemma legacy_click_threshold:
  assumes "isDragging s" and "legacy_dragStart s = Some ds"
  shows "fst (legacy_handleMouseUp dragEnd s) =
     (if \<bar>dragEnd - ds\<bar> < 0.5 then [OnSeek dragEnd, OnRangeSelect None]
      else [OnRangeSelect (Some \<lparr>range_start = min ds dragEnd, range_end = max ds dragEnd\<rparr>),
            OnSeek (min ds dragEnd)])"
  using assms by (simp add: legacy_handleMouseUp_def Let_def)

lemma legacy_mouse_down_clears_selection:
  "fst (legacy_handleMouseDown time s) = [OnRangeSelect None]"
  by (simp add: legacy_handleMouseDown_def)

subsection \<open>The drag state machine: the range invariant\<close>

lemma committedRanges_append:
  "committedRanges (xs @ ys) = committedRanges xs @ committedRanges ys"
  by (induction xs rule: committedRanges.induct) simp_all

lemma move_preserves:
  assumes "optInBounds d (tempRange s)" and "optTimeOk d (dragStart s)"
  shows "optInBounds d (tempRange (handleGlobalMouseMove d t s))"
    and "optTimeOk d (dragStart (handleGlobalMouseMove d t s))"
proof -
  show "optTimeOk d (dragStart (handleGlobalMouseMove d t s))"
    using assms(2) by (simp add: handleGlobalMouseMove_def Let_def split: option.split)
  show "optInBounds d (tempRange (handleGlobalMouseMove d t s))"
  proof (cases "tempRange s")
    case None
    then show ?thesis by (simp add: handleGlobalMouseMove_def)
  next
    case (Some r)
    with assms(1) have "inBounds d r" by simp
    then have "0 \<le> range_start r" "range_start r \<le> range_end r" "range_end r \<le> d"
      by (simp_all add: inBounds_def)
    with Some show ?thesis
      by (auto simp: handleGlobalMouseMove_def Let_def inBounds_def)
  qed
qed

lemma up_commits:
  assumes "optInBounds d (tempRange s)" and "optTimeOk d (dragStart s)" and "timeOk d t"
  shows "list_all (inBounds d) (committedRanges (fst (handleGlobalMouseUp t s)))"
proof (cases "dragMode s")
  case Create
  show ?thesis
  proof (cases "dragStart s")
    case None
    with Create show ?thesis by (simp add: handleGlobalMouseUp_def)
  next
    case (Some ds)
    with assms(2) have "timeOk d ds" by simp
    with assms(3) Create Some show ?thesis
      by (auto simp: handleGlobalMouseUp_def Let_def inBounds_def timeOk_def)
  qed
next
  case DragNone
  then show ?thesis by (simp add: handleGlobalMouseUp_def split: option.split)
next
  case ExtendStart
  with assms(1) show ?thesis
    by (cases "tempRange s"; cases "dragStart s") (simp_all add: handleGlobalMouseUp_def)
next
  case ExtendEnd
  with assms(1) show ?thesis
    by (cases "tempRange s"; cases "dragStart s") (simp_all add: handleGlobalMouseUp_def)
qed

lemma fold_applyCallback_duration:
  "app_duration (fold applyCallback calls a) = app_duration a"
proof (induction calls arbitrary: a)
  case Nil
  show ?case by simp
next
  case (Cons c cs)
  then show ?case
    by (cases c) (simp_all add: handleSeek_def handleRangeSelect_def Let_def)
qed

lemma fold_applyCallback_selection:
  assumes "optInBounds d (selectionRange a)"
    and "list_all (inBounds d) (committedRanges calls)"
  shows "optInBounds d (selectionRange (fold applyCallback calls a))"
  using assms
proof (induction calls arbitrary: a)
  case Nil
  then show ?case by simp
next
  case (Cons c cs)
  show ?case
  proof (cases c)
    case (OnSeek t)
    with Cons show ?thesis by (simp add: handleSeek_def)
  next
    case (OnRangeSelect rng)
    with Cons show ?thesis
      by (cases rng) (simp_all add: handleRangeSelect_def)
  qed
qed

lemma step_preserves:
  assumes "stateOk d st" and "eventOk d e"
  shows "stateOk d (snd (timelineStep e st))"
    and "list_all (inBounds d) (committedRanges (fst (timelineStep e st)))"
proof -
  obtain a s where st: "st = (a, s)" by (cases st)
  from assms(1) st have ok: "app_duration a = d" "optInBounds d (selectionRange a)"
    "optInBounds d (tempRange s)" "optTimeOk d (dragStart s)"
    by (simp_all add: stateOk_def)
  have "stateOk d (snd (timelineStep e st)) \<and>
        list_all (inBounds d) (committedRanges (fst (timelineStep e st)))"
  proof (cases e)
    case (TrackMouseDown t)
    with assms(2) ok st show ?thesis
      by (simp add: stateOk_def handleMouseDown_def)
  next
    case StartHandleMouseDown
    with ok st show ?thesis
      by (cases "selectionRange a") (simp_all add: stateOk_def handleStartHandleMouseDown_def)
  next
    case EndHandleMouseDown
    with ok st show ?thesis
      by (cases "selectionRange a") (simp_all add: stateOk_def handleEndHandleMouseDown_def)
  next
    case (GlobalMouseMove t)
    with ok st move_preserves [OF ok(3,4), of t] show ?thesis
      by (simp add: stateOk_def)
  next
    case (GlobalMouseUp t)
    with assms(2) have t: "timeOk d t" by simp
    obtain calls s' where up: "handleGlobalMouseUp t s = (calls, s')"
      by (cases "handleGlobalMouseUp t s")
    then have s': "tempRange s' = None" "dragStart s' = None"
      by (auto simp: handleGlobalMouseUp_def Let_def)
    from up_commits [OF ok(3,4) t] up have c: "list_all (inBounds d) (committedRanges calls)"
      by simp
    from fold_applyCallback_selection [OF ok(2) c] fold_applyCallback_duration [of calls a]
      ok st up s' c GlobalMouseUp
    show ?thesis
      by (simp add: stateOk_def)
  next
    case (TrackMouseMove t)
    with ok st show ?thesis
      by (simp add: stateOk_def handleMouseMove_def)
  next
    case TrackMouseLeave
    with ok st show ?thesis
      by (simp add: stateOk_def handleMouseLeave_def)
  next
    case (SelectionChanged rng)
    with assms(2) ok st show ?thesis
      by (cases rng) (simp_all add: stateOk_def)
  qed
  then show "stateOk d (snd (timelineStep e st))"
    and "list_all (inBounds d) (committedRanges (fst (timelineStep e st)))"
    by simp_all
qed

lemma run_preserves:
  assumes "stateOk d st" and "list_all (eventOk d) es"
  shows "stateOk d (snd (runTimeline es st))
       \<and> list_all (inBounds d) (committedRanges (fst (runTimeline es st)))"
  using assms
proof (induction es arbitrary: st)
  case Nil
  then show ?case by simp
next
  case (Cons e es)
  from Cons.prems have e: "eventOk d e" and es: "list_all (eventOk d) es"
    by simp_all
  obtain calls st' where step: "timelineStep e st = (calls, st')"
    by (cases "timelineStep e st")
  from step_preserves [OF Cons.prems(1) e] step
  have st': "stateOk d st'" and c: "list_all (inBounds d) (committedRanges calls)"
    by simp_all
  from Cons.IH [OF st' es] step c show ?case
    by (auto simp: committedRanges_append split: prod.split)
qed

text \<open>
  C8.  From an idle timeline and a selection range within the bounds (or none), after any
  sequence of events whose times lie in \<open>[0, duration]\<close> and whose outside writes to the
  selection range are within the bounds, every range the timeline commits with
  \<open>onRangeSelect\<close> (from a create-drag or from either handle) satisfies
  \<open>0 \<le> start \<le> end \<le> duration\<close>.
\<close>

theorem committed_ranges_in_bounds:
  fixes a :: "'o AppState"
  assumes "list_all (eventOk (app_duration a)) es"
    and "optInBounds (app_duration a) (selectionRange a)"
  shows "list_all (inBounds (app_duration a))
           (committedRanges (fst (runTimeline es (a, initialTimeline))))"
proof -
  from assms(2) have "stateOk (app_duration a) (a, initialTimeline)"
    by (simp add: stateOk_def initialTimeline_def)
  from run_preserves [OF this assms(1)] show ?thesis
    by simp
qed

lemma getTimeFromEvent_clamped:
  assumes "0 \<le> duration"
    and "getTimeFromEvent duration zoomLevel zoomCenter hasRef clientX rectLeft rectWidth = Some time"
  shows "timeOk duration time"
  using assms by (auto simp: getTimeFromEvent_def timeOk_def Let_def split: if_splits)

lemma getTimeFromEvent_defined:
  assumes "rectWidth \<noteq> 0"
  shows "\<exists>time. getTimeFromEvent duration zoomLevel zoomCenter hasRef clientX rectLeft rectWidth
           = Some time"
  using assms by (simp add: getTimeFromEvent_def Let_def)

theorem committed_ranges_in_bounds_witness:
  "list_all (eventOk (app_duration exampleApp)) exampleGesture
   \<and> optInBounds (app_duration exampleApp) (selectionRange exampleApp)
   \<and> committedRanges (fst (runTimeline exampleGesture (exampleApp, initialTimeline)))
       = [\<lparr>range_start = 10, range_end = 20\<rparr>, \<lparr>range_start = 5, range_end = 20\<rparr>,
          \<lparr>range_start = 5, range_end = 120\<rparr>]
   \<and> list_all (inBounds (app_duration exampleApp))
        (committedRanges (fst (runTimeline exampleGesture (exampleApp, initialTimeline))))"
proof -
  have ev: "list_all (eventOk (app_duration exampleApp)) exampleGesture"
    by (simp add: exampleGesture_def exampleApp_def timeOk_def)
  have sel: "optInBounds (app_duration exampleApp) (selectionRange exampleApp)"
    by (simp add: exampleApp_def inBounds_def)
  have run: "committedRanges (fst (runTimeline exampleGesture (exampleApp, initialTimeline)))
       = [\<lparr>range_start = 10, range_end = 20\<rparr>, \<lparr>range_start = 5, range_end = 20\<rparr>,
          \<lparr>range_start = 5, range_end = 120\<rparr>]"
    by (simp add: exampleGesture_def timeline_defs)
  from committed_ranges_in_bounds [OF ev sel] ev sel run show ?thesis
    by simp
qed

subsection \<open>The drag state machine: resizing by a handle\<close>

text \<open>
  C7 (as amended).  In \<open>ExtendStart\<close> a pointer move leaves the provisional range's end
  fixed and sets its start to \<open>max 0 (min time (end - 0.05))\<close>: at least 0.05 s before the
  end when the end is at least 0.05, and 0 otherwise.  In \<open>ExtendEnd\<close> it leaves the start
  fixed and sets the end to \<open>min duration (max time (start + 0.05))\<close>: at least 0.05 s after
  the start when \<open>start + 0.05 \<le> duration\<close>, and \<open>duration\<close> otherwise.
\<close>

theorem extend_move_provisional_range:
  fixes a :: "'o AppState"
  assumes "tempRange s = Some r"
    and "timelineStep (GlobalMouseMove time) (a, s) = (calls, a', s')"
  shows "(dragMode s = ExtendStart \<longrightarrow>
            (\<exists>r'. tempRange s' = Some r'
               \<and> range_end r' = range_end r
               \<and> range_start r' = max 0 (min time (range_end r - 0.05))
               \<and> (0.05 \<le> range_end r \<longrightarrow> minGap r')
               \<and> (range_end r < 0.05 \<longrightarrow> range_start r' = 0)))
       \<and> (dragMode s = ExtendEnd \<longrightarrow>
            (\<exists>r'. tempRange s' = Some r'
               \<and> range_start r' = range_start r
               \<and> range_end r' = min (app_duration a) (max time (range_start r + 0.05))
               \<and> (range_start r + 0.05 \<le> app_duration a \<longrightarrow> minGap r')
               \<and> (app_duration a < range_start r + 0.05 \<longrightarrow> range_end r' = app_duration a)))"
proof (intro conjI impI)
  assume m: "dragMode s = ExtendStart"
  let ?r' = "\<lparr>range_start = max 0 (min time (range_end r - 0.05)), range_end = range_end r\<rparr>"
  from assms m have "tempRange s' = Some ?r'"
    by (auto simp: handleGlobalMouseMove_def Let_def)
  moreover have "0.05 \<le> range_end r \<longrightarrow> minGap ?r'"
    by (auto simp: minGap_def)
  moreover have "range_end r < 0.05 \<longrightarrow> range_start ?r' = 0"
    by auto
  ultimately show "\<exists>r'. tempRange s' = Some r'
               \<and> range_end r' = range_end r
               \<and> range_start r' = max 0 (min time (range_end r - 0.05))
               \<and> (0.05 \<le> range_end r \<longrightarrow> minGap r')
               \<and> (range_end r < 0.05 \<longrightarrow> range_start r' = 0)"
    by (intro exI [of _ ?r']) simp
next
  assume m: "dragMode s = ExtendEnd"
  let ?d = "app_duration a"
  let ?r' = "\<lparr>range_start = range_start r, range_end = min ?d (max time (range_start r + 0.05))\<rparr>"
  from assms m have "tempRange s' = Some ?r'"
    by (auto simp: handleGlobalMouseMove_def Let_def)
  moreover have "range_start r + 0.05 \<le> ?d \<longrightarrow> minGap ?r'"
    by (auto simp: minGap_def)
  moreover have "?d < range_start r + 0.05 \<longrightarrow> range_end ?r' = ?d"
    by auto
  ultimately show "\<exists>r'. tempRange s' = Some r'
               \<and> range_start r' = range_start r
               \<and> range_end r' = min ?d (max time (range_start r + 0.05))
               \<and> (range_start r + 0.05 \<le> ?d \<longrightarrow> minGap r')
               \<and> (?d < range_start r + 0.05 \<longrightarrow> range_end r' = ?d)"
    by (intro exI [of _ ?r']) simp
qed

theorem extend_move_provisional_range_witness:
  "tempRange resizingStart = Some \<lparr>range_start = 30, range_end = 45\<rparr>
   \<and> dragMode resizingStart = ExtendStart
   \<and> timelineStep (GlobalMouseMove 44.99) (exampleApp, resizingStart)
       = ([], exampleApp, resizingStart\<lparr>localHoverTime := Some 44.99,
            tempRange := Some \<lparr>range_start = 44.95, range_end = 45\<rparr>\<rparr>)
   \<and> tempRange resizingEnd = Some \<lparr>range_start = 30, range_end = 45\<rparr>
   \<and> dragMode resizingEnd = ExtendEnd
   \<and> timelineStep (GlobalMouseMove 12) (exampleApp, resizingEnd)
       = ([], exampleApp, resizingEnd\<lparr>localHoverTime := Some 12,
            tempRange := Some \<lparr>range_start = 30, range_end = 30.05\<rparr>\<rparr>)
   \<and> minGap \<lparr>range_start = 44.95, range_end = 45\<rparr>
   \<and> minGap \<lparr>range_start = 30, range_end = 30.05\<rparr>"
proof -
  have s1: "tempRange resizingStart = Some \<lparr>range_start = 30, range_end = 45\<rparr>"
    and m1: "dragMode resizingStart = ExtendStart"
    by (simp_all add: resizingStart_def)
  have s2: "tempRange resizingEnd = Some \<lparr>range_start = 30, range_end = 45\<rparr>"
    and m2: "dragMode resizingEnd = ExtendEnd"
    by (simp_all add: resizingEnd_def)
  obtain calls1 a1 t1 where
    st1: "timelineStep (GlobalMouseMove 44.99) (exampleApp, resizingStart) = (calls1, a1, t1)"
    by (cases "timelineStep (GlobalMouseMove 44.99) (exampleApp, resizingStart)")
  obtain calls2 a2 t2 where
    st2: "timelineStep (GlobalMouseMove 12) (exampleApp, resizingEnd) = (calls2, a2, t2)"
    by (cases "timelineStep (GlobalMouseMove 12) (exampleApp, resizingEnd)")
  from extend_move_provisional_range [OF s1 st1] m1
  have r1: "tempRange t1 = Some \<lparr>range_start = 44.95, range_end = 45\<rparr>"
    by auto
  from extend_move_provisional_range [OF s2 st2] m2
  have r2: "tempRange t2 = Some \<lparr>range_start = 30, range_end = 30.05\<rparr>"
    by (auto simp: exampleApp_def)
  from st1 st2 r1 r2 s1 m1 s2 m2 show ?thesis
    by (auto simp: resizingStart_def resizingEnd_def handleGlobalMouseMove_def Let_def minGap_def)
qed

text \<open>
  The gap of 0.05 s as C7 states it fails next to the bound 0: with the point selection
  \<open>[0, 0]\<close> (a point annotation at time 0, selected), dragging the start handle leaves the
  provisional range \<open>[0, 0]\<close>.
\<close>

theorem extend_start_gap_counterexample:
  "map_option minGap
     (tempRange (snd (snd (runTimeline
        [SelectionChanged (Some \<lparr>range_start = 0, range_end = 0\<rparr>),
         StartHandleMouseDown, GlobalMouseMove (1 / 2)]
        (exampleApp, initialTimeline))))) = Some False
   \<and> tempRange (snd (snd (runTimeline
        [SelectionChanged (Some \<lparr>range_start = 0, range_end = 0\<rparr>),
         StartHandleMouseDown, GlobalMouseMove (1 / 2)]
        (exampleApp, initialTimeline)))) = Some \<lparr>range_start = 0, range_end = 0\<rparr>
   \<and> dragMode (snd (snd (runTimeline
        [SelectionChanged (Some \<lparr>range_start = 0, range_end = 0\<rparr>),
         StartHandleMouseDown, GlobalMouseMove (1 / 2)]
        (exampleApp, initialTimeline)))) = ExtendStart"
  by (simp add: exampleApp_def initialTimeline_def handleStartHandleMouseDown_def
      handleGlobalMouseMove_def Let_def minGap_def)

subsection \<open>The content hash\<close>

lemma slice_first:
  assumes "CHUNK_SIZE * 3 < length file"
  shows "blob_slice 0 (Some (int CHUNK_SIZE)) file = take CHUNK_SIZE file"
  using assms by (simp add: blob_slice_def Let_def)

lemma slice_middle:
  assumes "CHUNK_SIZE * 3 < length file"
  shows "blob_slice (int (length file div 2) - int (CHUNK_SIZE div 2))
           (Some (int (length file div 2) - int (CHUNK_SIZE div 2) + int CHUNK_SIZE)) file
         = take CHUNK_SIZE (drop (length file div 2 - CHUNK_SIZE div 2) file)"
proof -
  let ?m = "int (length file div 2) - int (CHUNK_SIZE div 2)"
  from assms have lo: "0 \<le> ?m" and hi: "?m + int CHUNK_SIZE \<le> int (length file)"
    by (simp_all add: CHUNK_SIZE_def)
  have n: "nat ?m = length file div 2 - CHUNK_SIZE div 2"
    by (simp add: nat_diff_distrib')
  from lo hi have "blob_slice ?m (Some (?m + int CHUNK_SIZE)) file
      = take CHUNK_SIZE (drop (nat ?m) file)"
    by (simp add: blob_slice_def Let_def min_def max_def)
  with n show ?thesis by simp
qed

lemma slice_last:
  assumes "CHUNK_SIZE * 3 < length file"
  shows "blob_slice (- int CHUNK_SIZE) None file = drop (length file - CHUNK_SIZE) file"
proof -
  from assms have "nat (int (length file) - int CHUNK_SIZE) = length file - CHUNK_SIZE"
    by (simp add: nat_diff_distrib')
  moreover have "0 < CHUNK_SIZE"
    by (simp add: CHUNK_SIZE_def)
  ultimately show ?thesis
    using assms by (simp add: blob_slice_def Let_def max_def)
qed

lemma hexDigit_mem:
  assumes "n < 16"
  shows "hexDigit n \<in> set ''0123456789abcdef''"
proof -
  from assms have "n < length ''0123456789abcdef''" by simp
  then show ?thesis
    unfolding hexDigit_def by (rule nth_mem)
qed

lemma byte_hex_chars:
  "set (padStart 2 CHR ''0'' (byte_toString16 b)) \<subseteq> set ''0123456789abcdef''"
proof -
  have "unat b < 2 ^ 8"
    using unsigned_less [of b, where ?'a = nat] by simp
  then have hi: "unat b div 16 < 16" by simp
  have lo: "unat b mod 16 < 16" by simp
  show ?thesis
  proof (cases "unat b < 16")
    case True
    with hexDigit_mem [OF True] show ?thesis
      by (simp add: byte_toString16_def padStart_def Let_def)
  next
    case False
    with hexDigit_mem [OF hi] hexDigit_mem [OF lo] show ?thesis
      by (simp add: byte_toString16_def padStart_def Let_def)
  qed
qed

lemma byte_hex_length: "length (padStart 2 CHR ''0'' (byte_toString16 b)) = 2"
  by (simp add: byte_toString16_def padStart_def Let_def)

lemma toHex_chars: "set (toHex hashArray) \<subseteq> set ''0123456789abcdef''"
proof (induction hashArray)
  case Nil
  show ?case by (simp add: toHex_def)
next
  case (Cons b bs)
  with byte_hex_chars [of b] show ?case
    by (simp add: toHex_def)
qed

lemma toHex_length: "length (toHex hashArray) = 2 * length hashArray"
proof (induction hashArray)
  case Nil
  show ?case by (simp add: toHex_def)
next
  case (Cons b bs)
  with byte_hex_length [of b] show ?case
    by (simp add: toHex_def)
qed

lemma decDigit_value:
  assumes "d < 10"
  shows "of_char (decDigit d) - 48 = d"
proof -
  from assms have "d \<in> {0, 1, 2, 3, 4, 5, 6, 7, 8, 9}"
    by auto
  then show ?thesis
    by (auto simp: decDigit_def)
qed

lemma decimalValue_snoc:
  "decimalValue (s @ [c]) = decimalValue s * 10 + (of_char c - 48)"
  by (simp add: decimalValue_def)

lemma nat_toString_value: "decimalValue (nat_toString n) = n"
proof (induction n rule: nat_toString.induct)
  case (1 n)
  show ?case
  proof (cases "n < 10")
    case True
    then show ?thesis
      by (simp add: decimalValue_def decDigit_value)
  next
    case False
    have "nat_toString n = nat_toString (n div 10) @ [decDigit (n mod 10)]"
      using False by simp
    then have "decimalValue (nat_toString n) = decimalValue (nat_toString (n div 10)) * 10 + n mod 10"
      by (simp only: decimalValue_snoc) (simp add: decDigit_value)
    with 1 False show ?thesis
      by simp
  qed
qed

lemma sampled_chunk_lengths:
  assumes "CHUNK_SIZE * 3 < length file"
  shows "length (take (1024 * 1024) file) = 1024 * 1024"
    and "length (take (1024 * 1024) (drop (length file div 2 - 512 * 1024) file)) = 1024 * 1024"
    and "length (drop (length file - 1024 * 1024) file) = 1024 * 1024"
  using assms by (simp_all add: CHUNK_SIZE_def)

lemma below_16_cases:
  assumes "k < (16::nat)"
  shows "k \<in> {0, 1, 2, 3, 4, 5, 6, 7, 8, 9, 10, 11, 12, 13, 14, 15}"
  using assms by simp presburger

lemma hexValue_hexDigit:
  assumes "k < 16"
  shows "spec_hexValue (hexDigit k) = k"
  using below_16_cases [OF assms] by (auto simp: spec_hexValue_def hexDigit_def)

lemma byte_hex_pair:
  "padStart 2 CHR ''0'' (byte_toString16 b) = [hexDigit (unat b div 16), hexDigit (unat b mod 16)]"
proof (cases "unat b < 16")
  case True
  then show ?thesis
    by (simp add: byte_toString16_def padStart_def Let_def hexDigit_def)
next
  case False
  then show ?thesis
    by (simp add: byte_toString16_def padStart_def Let_def)
qed

lemma byte_of_nibbles: "of_nat (16 * (unat b div 16) + unat b mod 16) = (b :: byte)"
proof -
  have "16 * (unat b div 16) + unat b mod 16 = unat b"
    by simp
  then show ?thesis
    by simp
qed

lemma hexDecode_toHex: "spec_hexDecode (toHex hashArray) = hashArray"
proof (induction hashArray)
  case Nil
  show ?case by (simp add: toHex_def)
next
  case (Cons b bs)
  have "unat b < 2 ^ 8"
    using unsigned_less [of b, where ?'a = nat] by simp
  then have hi: "unat b div 16 < 16" by simp
  have lo: "unat b mod 16 < 16" by simp
  have "toHex (b # bs) = hexDigit (unat b div 16) # hexDigit (unat b mod 16) # toHex bs"
    by (simp add: toHex_def byte_hex_pair)
  with Cons show ?case
    by (simp add: hexValue_hexDigit [OF hi] hexValue_hexDigit [OF lo] byte_of_nibbles)
qed

lemma decDigit_byte:
  assumes "d < 10"
  shows "(of_nat (of_char (decDigit d)) :: byte) = of_nat (48 + d)"
proof -
  from assms have "d \<in> {0, 1, 2, 3, 4, 5, 6, 7, 8, 9}"
    by auto
  then show ?thesis
    by (auto simp: decDigit_def)
qed

lemma textEncode_nat_toString: "textEncode (nat_toString n) = spec_decimalBytes n"
proof (induction n rule: nat_toString.induct)
  case (1 n)
  show ?case
  proof (cases "n < 10")
    case True
    then show ?thesis
      by (simp add: textEncode_def spec_decimalBytes_def decDigit_byte)
  next
    case False
    then have m: "n mod 10 < 10" by simp
    have "textEncode (nat_toString n)
        = textEncode (nat_toString (n div 10)) @ [of_nat (of_char (decDigit (n mod 10)))]"
      using False by (simp add: textEncode_def)
    also have "\<dots> = spec_decimalBytes (n div 10) @ [of_nat (48 + n mod 10)]"
      using 1 False by (simp add: decDigit_byte [OF m])
    also have "\<dots> = spec_decimalBytes n"
      using False by (simp add: spec_decimalBytes_def)
    finally show ?thesis .
  qed
qed

lemma spec_digitsValue_snoc: "spec_digitsValue (ds @ [d]) = 10 * spec_digitsValue ds + d"
  by (simp add: spec_digitsValue_def)

lemma spec_decimalDigits_value: "spec_digitsValue (spec_decimalDigits n) = n"
proof (induction n rule: spec_decimalDigits.induct)
  case (1 n)
  show ?case
  proof (cases "n < 10")
    case True
    then show ?thesis by (simp add: spec_digitsValue_def)
  next
    case False
    then have "spec_decimalDigits n = spec_decimalDigits (n div 10) @ [n mod 10]"
      by simp
    then have "spec_digitsValue (spec_decimalDigits n)
        = 10 * spec_digitsValue (spec_decimalDigits (n div 10)) + n mod 10"
      by (simp only: spec_digitsValue_snoc)
    with 1 False show ?thesis by simp
  qed
qed

lemma spec_decimalDigits_range: "list_all (\<lambda>d. d < 10) (spec_decimalDigits n)"
proof (induction n rule: spec_decimalDigits.induct)
  case (1 n)
  show ?case
  proof (cases "n < 10")
    case True
    then show ?thesis by simp
  next
    case False
    then have "spec_decimalDigits n = spec_decimalDigits (n div 10) @ [n mod 10]"
      by simp
    moreover from 1 False have "list_all (\<lambda>d. d < 10) (spec_decimalDigits (n div 10))"
      by simp
    ultimately show ?thesis
      by (simp only: list_all_append) simp
  qed
qed

lemma fast_hash_sampled:
  assumes "CHUNK_SIZE * 3 < length file"
  shows "generateFastFileHash sha256 file = toHex (sha256 (spec_sampledMessage file))"
proof -
  have "spec_sampledMessage file =
      textEncode (nat_toString (length file)) @ take CHUNK_SIZE file
      @ take CHUNK_SIZE (drop (length file div 2 - CHUNK_SIZE div 2) file)
      @ drop (length file - CHUNK_SIZE) file"
    unfolding spec_sampledMessage_def textEncode_nat_toString CHUNK_SIZE_def by simp
  with assms slice_first [OF assms] slice_middle [OF assms] slice_last [OF assms]
  show ?thesis
    by (simp add: generateFastFileHash_def Let_def)
qed

text \<open>
  C3.  For a file of more than 3 MiB, \<open>generateFastFileHash\<close> returns the digest, in
  lowercase hex, of one message: the decimal string of the byte length, then the first
  1 MiB, then the 1 MiB that starts at \<open>floor(size/2) - 512 KiB\<close>, then the last 1 MiB.
  The result is two characters of \<open>0123456789abcdef\<close> for each digest byte and reads back
  as the digest; the length prefix is the decimal digits of the length; each of the three
  samples is exactly 1 MiB long.
\<close>

theorem fast_hash_large_file:
  assumes "CHUNK_SIZE * 3 < length file"
  shows "spec_hexDecode (generateFastFileHash sha256 file) =
           sha256
             (spec_decimalBytes (length file)
              @ take (1024 * 1024) file
              @ take (1024 * 1024) (drop (length file div 2 - 512 * 1024) file)
              @ drop (length file - 1024 * 1024) file)
       \<and> length (generateFastFileHash sha256 file) = 2 * length (sha256 (spec_sampledMessage file))
       \<and> set (generateFastFileHash sha256 file) \<subseteq> set ''0123456789abcdef''
       \<and> spec_digitsValue (spec_decimalDigits (length file)) = length file
       \<and> list_all (\<lambda>d. d < 10) (spec_decimalDigits (length file))
       \<and> length (take (1024 * 1024) file) = 1024 * 1024
       \<and> length (take (1024 * 1024) (drop (length file div 2 - 512 * 1024) file)) = 1024 * 1024
       \<and> length (drop (length file - 1024 * 1024) file) = 1024 * 1024"
proof -
  have eq: "generateFastFileHash sha256 file = toHex (sha256 (spec_sampledMessage file))"
    using assms by (rule fast_hash_sampled)
  have dec: "spec_hexDecode (generateFastFileHash sha256 file) = sha256 (spec_sampledMessage file)"
    by (simp only: eq hexDecode_toHex)
  have len: "length (generateFastFileHash sha256 file) = 2 * length (sha256 (spec_sampledMessage file))"
    by (simp only: eq toHex_length)
  have chars: "set (generateFastFileHash sha256 file) \<subseteq> set ''0123456789abcdef''"
    by (simp only: eq toHex_chars)
  from dec len chars sampled_chunk_lengths [OF assms] spec_decimalDigits_value [of "length file"]
    spec_decimalDigits_range [of "length file"]
  show ?thesis
    by (simp only: spec_sampledMessage_def)
qed

theorem fast_hash_large_file_witness:
  "CHUNK_SIZE * 3 < length bigFile
   \<and> length bigFile = 3145729
   \<and> spec_decimalBytes 3145729 = [51, 49, 52, 53, 55, 50, 57]
   \<and> generateFastFileHash (take 8) bigFile = ''33313435373239ab''
   \<and> spec_hexDecode ''33313435373239ab'' = [51, 49, 52, 53, 55, 50, 57, 171]
   \<and> (\<forall>sha256. spec_hexDecode (generateFastFileHash sha256 bigFile) =
         sha256 ([51, 49, 52, 53, 55, 50, 57] @ replicate (1024 * 1024) 171
            @ replicate (1024 * 1024) 205 @ replicate (1024 * 1024) 239))"
proof -
  have big: "CHUNK_SIZE * 3 < length bigFile"
    by (simp add: bigFile_def CHUNK_SIZE_def)
  have len: "length bigFile = 3145729"
    by (simp add: bigFile_def)
  have dec: "spec_decimalBytes 3145729 = [51, 49, 52, 53, 55, 50, 57]"
    by (simp add: spec_decimalBytes_def)
  have c1: "take (1024 * 1024) bigFile = replicate (1024 * 1024) 171"
    by (simp add: bigFile_def)
  have c2: "take (1024 * 1024) (drop (3145729 div 2 - 512 * 1024) bigFile) = replicate (1024 * 1024) 205"
    by (simp add: bigFile_def)
  have c3: "drop (3145729 - 1024 * 1024) bigFile = replicate (1024 * 1024) 239"
    by (simp add: bigFile_def)
  have gen: "spec_hexDecode (generateFastFileHash sha256 bigFile) =
         sha256 ([51, 49, 52, 53, 55, 50, 57] @ replicate (1024 * 1024) 171
            @ replicate (1024 * 1024) 205 @ replicate (1024 * 1024) 239)" for sha256
    using fast_hash_large_file [OF big, of sha256] by (simp only: len dec c1 c2 c3)
  have msg: "spec_sampledMessage bigFile =
      [51, 49, 52, 53, 55, 50, 57] @ replicate (1024 * 1024) 171
        @ replicate (1024 * 1024) 205 @ replicate (1024 * 1024) 239"
    by (simp only: spec_sampledMessage_def len dec c1 c2 c3)
  have first8: "take 8 (spec_sampledMessage bigFile) = [51, 49, 52, 53, 55, 50, 57, 171]"
    unfolding msg by simp
  have hex: "toHex [51, 49, 52, 53, 55, 50, 57, 171] = ''33313435373239ab''"
    by (simp add: toHex_def padStart_def byte_toString16_def hexDigit_def)
  have run: "generateFastFileHash (take 8) bigFile = ''33313435373239ab''"
    using fast_hash_sampled [OF big, of "take 8"] by (simp only: first8 hex)
  have undo: "spec_hexDecode ''33313435373239ab'' = [51, 49, 52, 53, 55, 50, 57, 171]"
    by (simp add: spec_hexValue_def)
  from big len dec run undo gen show ?thesis
    by blast
qed

lemma full_hash_small:
  assumes "length file \<le> 3 * (1024 * 1024)"
  shows "generateFastFileHash sha256 file = toHex (sha256 file)"
  using assms by (simp add: generateFastFileHash_def generateFileHash_def CHUNK_SIZE_def)

text \<open>
  C4.  The result of \<open>generateFastFileHash\<close> is the lowercase hex of the digest of all
  the bytes for a file of at most 3 MiB, and of the digest of the sampled message for a
  file of more than 3 MiB; a file of exactly 3 MiB takes the first branch and one of
  3 MiB + 1 byte the second.
\<close>

theorem fast_hash_method_boundary:
  "spec_hexDecode (generateFastFileHash sha256 file) =
     (if length file \<le> 3 * (1024 * 1024) then sha256 file
      else sha256 (spec_sampledMessage file))
   \<and> length (generateFastFileHash sha256 file) =
     (if length file \<le> 3 * (1024 * 1024) then 2 * length (sha256 file)
      else 2 * length (sha256 (spec_sampledMessage file)))
   \<and> set (generateFastFileHash sha256 file) \<subseteq> set ''0123456789abcdef''"
proof (cases "length file \<le> 3 * (1024 * 1024)")
  case True
  have eq: "generateFastFileHash sha256 file = toHex (sha256 file)"
    using True by (rule full_hash_small)
  have "spec_hexDecode (generateFastFileHash sha256 file) = sha256 file"
    and "length (generateFastFileHash sha256 file) = 2 * length (sha256 file)"
    and "set (generateFastFileHash sha256 file) \<subseteq> set ''0123456789abcdef''"
    by (simp_all only: eq hexDecode_toHex toHex_length toHex_chars)
  with True show ?thesis by simp
next
  case False
  then have "CHUNK_SIZE * 3 < length file"
    by (simp add: CHUNK_SIZE_def)
  then have eq: "generateFastFileHash sha256 file = toHex (sha256 (spec_sampledMessage file))"
    by (rule fast_hash_sampled)
  have "spec_hexDecode (generateFastFileHash sha256 file) = sha256 (spec_sampledMessage file)"
    and "length (generateFastFileHash sha256 file) = 2 * length (sha256 (spec_sampledMessage file))"
    and "set (generateFastFileHash sha256 file) \<subseteq> set ''0123456789abcdef''"
    by (simp_all only: eq hexDecode_toHex toHex_length toHex_chars)
  with False show ?thesis by simp
qed

theorem fast_hash_method_boundary_witness:
  "length exactFile = 3 * (1024 * 1024)
   \<and> spec_hexDecode (generateFastFileHash (take 8) exactFile)
       = [171, 171, 171, 171, 171, 171, 171, 171]
   \<and> length (generateFastFileHash (take 8) exactFile) = 16
   \<and> length bigFile = 3 * (1024 * 1024) + 1
   \<and> spec_hexDecode (generateFastFileHash (take 8) bigFile)
       = [51, 49, 52, 53, 55, 50, 57, 171]
   \<and> length (generateFastFileHash (take 8) bigFile) = 16
   \<and> (\<forall>sha256. spec_hexDecode (generateFastFileHash sha256 exactFile) = sha256 exactFile)
   \<and> (\<forall>sha256. spec_hexDecode (generateFastFileHash sha256 bigFile)
         = sha256 (spec_sampledMessage bigFile))"
proof -
  have e: "length exactFile = 3 * (1024 * 1024)"
    by (simp add: exactFile_def)
  have b: "length bigFile = 3 * (1024 * 1024) + 1"
    by (simp add: bigFile_def)
  have e8: "take 8 exactFile = [171, 171, 171, 171, 171, 171, 171, 171]"
    by (simp add: exactFile_def) code_simp
  have len: "length bigFile = 3145729"
    by (simp add: bigFile_def)
  have dec: "spec_decimalBytes 3145729 = [51, 49, 52, 53, 55, 50, 57]"
    by (simp add: spec_decimalBytes_def)
  have c1: "take (1024 * 1024) bigFile = replicate (1024 * 1024) 171"
    by (simp add: bigFile_def)
  have c2: "take (1024 * 1024) (drop (3145729 div 2 - 512 * 1024) bigFile) = replicate (1024 * 1024) 205"
    by (simp add: bigFile_def)
  have c3: "drop (3145729 - 1024 * 1024) bigFile = replicate (1024 * 1024) 239"
    by (simp add: bigFile_def)
  have msg: "spec_sampledMessage bigFile =
      [51, 49, 52, 53, 55, 50, 57] @ replicate (1024 * 1024) 171
        @ replicate (1024 * 1024) 205 @ replicate (1024 * 1024) 239"
    by (simp only: spec_sampledMessage_def len dec c1 c2 c3)
  have b8: "take 8 (spec_sampledMessage bigFile) = [51, 49, 52, 53, 55, 50, 57, 171]"
    unfolding msg by simp
  have ge: "spec_hexDecode (generateFastFileHash sha256 exactFile) = sha256 exactFile"
    and le: "length (generateFastFileHash sha256 exactFile) = 2 * length (sha256 exactFile)"
    for sha256
    using fast_hash_method_boundary [of sha256 exactFile] e by simp_all
  have gb: "spec_hexDecode (generateFastFileHash sha256 bigFile)
         = sha256 (spec_sampledMessage bigFile)"
    and lb: "length (generateFastFileHash sha256 bigFile)
         = 2 * length (sha256 (spec_sampledMessage bigFile))"
    for sha256
    using fast_hash_method_boundary [of sha256 bigFile] b by simp_all
  from ge [of "take 8"] le [of "take 8"] gb [of "take 8"] lb [of "take 8"] e8 b8
  have "spec_hexDecode (generateFastFileHash (take 8) exactFile)
       = [171, 171, 171, 171, 171, 171, 171, 171]"
    and "length (generateFastFileHash (take 8) exactFile) = 16"
    and "spec_hexDecode (generateFastFileHash (take 8) bigFile)
       = [51, 49, 52, 53, 55, 50, 57, 171]"
    and "length (generateFastFileHash (take 8) bigFile) = 16"
    by simp_all
  with e b ge gb show ?thesis
    by blast
qed

subsection \<open>The drawing shown at the current time\<close>

lemma splitOn_not_Nil: "splitOn sep s \<noteq> []"
  by (induction s) (auto split: list.split)

lemma splitOn_no_sep:
  assumes "sep \<notin> set x"
  shows "splitOn sep x = [x]"
  using assms by (induction x) auto

lemma splitOn_append_sep:
  assumes "sep \<notin> set x"
  shows "splitOn sep (x @ sep # r) = x # splitOn sep r"
  using assms by (induction x) auto

lemma splitOn_joinWith:
  assumes "xs \<noteq> []" and "\<forall>x\<in>set xs. sep \<notin> set x"
  shows "splitOn sep (joinWith sep xs) = xs"
  using assms
proof (induction sep xs rule: joinWith.induct)
  case (1 sep)
  then show ?case by simp
next
  case (2 sep x)
  then show ?case by (simp add: splitOn_no_sep)
next
  case (3 sep x y ys)
  then show ?case by (simp add: splitOn_append_sep)
qed

lemma joinWith_nonempty:
  assumes "xs \<noteq> []" and "\<forall>x\<in>set xs. x \<noteq> []"
  shows "joinWith sep xs \<noteq> []"
  using assms by (induction sep xs rule: joinWith.induct) simp_all

lemma filter_by_key_image:
  assumes "distinct (map f xs)"
  shows "filter (\<lambda>x. f x \<in> f ` set (filter P xs)) xs = filter P xs"
proof (rule filter_cong [OF refl])
  fix x
  assume x: "x \<in> set xs"
  from assms have inj: "inj_on f (set xs)"
    by (simp add: distinct_map)
  show "(f x \<in> f ` set (filter P xs)) = P x"
  proof
    assume "f x \<in> f ` set (filter P xs)"
    then obtain y where y: "y \<in> set xs" "P y" "f x = f y"
      by auto
    with inj x have "x = y"
      by (auto dest: inj_onD)
    with y show "P x" by simp
  next
    assume "P x"
    with x show "f x \<in> f ` set (filter P xs)"
      by auto
  qed
qed

lemma hasDrawingInRange_spec:
  "filter (hasDrawingInRange (currentTime a)) (annotations a) = spec_visibleDrawings a"
  unfolding spec_visibleDrawings_def
  by (rule filter_cong) (simp_all add: hasDrawingInRange_def isTimeInRange_def TIME_EPSILON_def)

lemma idsString_fallback:
  assumes "\<not> isDrawingMode a" and "noSelection a"
  shows "visibleAnnotationIdsString a = joinWith CHR '','' (sort (map id (spec_visibleDrawings a)))"
  using assms
  by (auto simp: visibleAnnotationIdsString_def noSelection_def hasDrawingInRange_spec)

lemma visibleAnns_fallback:
  assumes "\<not> isDrawingMode a" and "noSelection a" and "wellFormedIds (annotations a)"
    and "spec_visibleDrawings a \<noteq> []"
  shows "visibleAnnotationIdsString a \<noteq> []" and "visibleAnns a = spec_visibleDrawings a"
proof -
  let ?V = "spec_visibleDrawings a"
  let ?ids = "sort (map id ?V)"
  have sub: "set ?V \<subseteq> set (annotations a)"
    by (auto simp: spec_visibleDrawings_def)
  from assms(3) have wf: "\<forall>x\<in>set (annotations a). id x \<noteq> [] \<and> CHR '','' \<notin> set (id x)"
    and d: "distinct (map id (annotations a))"
    by (simp_all add: wellFormedIds_def list_all_iff)
  from assms(4) have ne: "?ids \<noteq> []"
    by (metis length_0_conv length_map length_sort)
  from wf sub have nocomma: "\<forall>x\<in>set ?ids. CHR '','' \<notin> set x" and nonemp: "\<forall>x\<in>set ?ids. x \<noteq> []"
    by auto
  have str: "visibleAnnotationIdsString a = joinWith CHR '','' ?ids"
    using assms(1,2) by (rule idsString_fallback)
  with joinWith_nonempty [OF ne nonemp] show "visibleAnnotationIdsString a \<noteq> []"
    by simp
  from str splitOn_joinWith [OF ne nocomma]
  have "visibleAnns a = filter (\<lambda>x. id x \<in> set ?ids) (annotations a)"
    by (simp add: visibleAnns_def)
  also have "\<dots> = filter (\<lambda>x. id x \<in> id ` set (filter (hasDrawingInRange (currentTime a)) (annotations a)))
      (annotations a)"
    by (simp add: hasDrawingInRange_spec)
  also have "\<dots> = filter (hasDrawingInRange (currentTime a)) (annotations a)"
    using d by (rule filter_by_key_image)
  finally show "visibleAnns a = ?V"
    by (simp add: hasDrawingInRange_spec)
qed

lemma uuidShaped_no_comma:
  assumes "uuidShaped s"
  shows "s \<noteq> []" and "CHR '','' \<notin> set s"
proof -
  from assms have len: "length s = 36"
    and chars: "\<forall>c\<in>set s. c \<in> set ''0123456789abcdef-''"
    by (simp_all add: uuidShaped_def list_all_iff)
  from len show "s \<noteq> []" by auto
  show "CHR '','' \<notin> set s"
  proof
    assume "CHR '','' \<in> set s"
    with chars have "CHR '','' \<in> set ''0123456789abcdef-''" by blast
    then show False by simp
  qed
qed

lemma uuid_ids_wellFormed:
  assumes "distinct (map id anns)" and "list_all (\<lambda>x. uuidShaped (id x)) anns"
  shows "wellFormedIds anns"
  using assms uuidShaped_no_comma
  by (auto simp: wellFormedIds_def list_all_iff)

text \<open>
  C5.  With no annotation selected and drawing mode off, the resolver gathers every
  annotation with a drawing payload whose range contains the current time within 0.1 s:
  it returns nothing when there is none, the payload of the only one, as stored, when
  there is exactly one, and otherwise a document whose objects are the objects of all of
  them, concatenated in the order of the store.  The annotations reach \<open>App\<close> from the
  server only, which issues every identifier as a UUID primary key; \<open>wellFormedIds\<close> is
  what the resolver uses of that: identifiers pairwise distinct, not empty and free of
  commas.
\<close>

theorem resolver_without_selection:
  fixes a :: "'o AppState"
  assumes "\<not> isDrawingMode a" and "noSelection a" and "wellFormedIds (annotations a)"
  shows "activeDrawing a =
     (case spec_visibleDrawings a of
        [] \<Rightarrow> None
      | [ann] \<Rightarrow> drawingData ann
      | ann # anns \<Rightarrow>
          Some \<lparr>version = ''5.3.0'',
                objects = concat (map drawnObjects (spec_visibleDrawings a))\<rparr>)"
proof (cases "spec_visibleDrawings a")
  case Nil
  with idsString_fallback [OF assms(1,2)] show ?thesis
    by (simp add: activeDrawing_def)
next
  case (Cons ann anns)
  then have ne: "spec_visibleDrawings a \<noteq> []" by simp
  note v = visibleAnns_fallback [OF assms ne]
  show ?thesis
  proof (cases anns)
    case Nil
    with Cons v show ?thesis
      by (simp add: activeDrawing_def)
  next
    case (Cons b bs)
    with \<open>spec_visibleDrawings a = ann # anns\<close> v show ?thesis
      by (simp add: activeDrawing_def)
  qed
qed

lemmas resolver_examples =
  resolverApp_def exampleStore_def drawingAnn_def commentAnn_def

theorem resolver_without_selection_witness:
  "\<not> isDrawingMode (resolverApp uuidStore (13 / 2))
   \<and> noSelection (resolverApp uuidStore (13 / 2))
   \<and> distinct (map id uuidStore)
   \<and> list_all (\<lambda>x. uuidShaped (id x)) uuidStore
   \<and> wellFormedIds uuidStore
   \<and> activeDrawing (resolverApp uuidStore (13 / 2))
       = Some \<lparr>version = ''5.3.0'', objects = [''path1'', ''rect'', ''circle'']\<rparr>
   \<and> activeDrawing (resolverApp uuidStore 5)
       = Some \<lparr>version = ''4.6.0'', objects = [''path1'']\<rparr>
   \<and> activeDrawing (resolverApp uuidStore 20) = None"
proof -
  have m: "\<not> isDrawingMode (resolverApp uuidStore t)"
    and n: "noSelection (resolverApp uuidStore t)" for t
    by (simp_all add: resolverApp_def noSelection_def)
  have d: "distinct (map id uuidStore)"
    by (simp add: uuidStore_def drawingAnn_def commentAnn_def)
  have u: "list_all (\<lambda>x. uuidShaped (id x)) uuidStore"
    by (simp add: uuidStore_def drawingAnn_def commentAnn_def uuidShaped_def)
  from d u have wf: "wellFormedIds uuidStore"
    by (rule uuid_ids_wellFormed)
  then have w: "wellFormedIds (annotations (resolverApp uuidStore t))" for t
    by (simp add: resolverApp_def)
  have v2: "spec_visibleDrawings (resolverApp uuidStore (13 / 2))
      = [drawingAnn ''7c9e6679-7425-40de-944b-e07fc1f90ae7'' 5 8 ''4.6.0'' [''path1''],
         drawingAnn ''16fd2706-8baf-433b-82eb-8c7fada847da'' 6 7 ''6.0.0'' [''rect'', ''circle'']]"
    and v1: "spec_visibleDrawings (resolverApp uuidStore 5)
      = [drawingAnn ''7c9e6679-7425-40de-944b-e07fc1f90ae7'' 5 8 ''4.6.0'' [''path1'']]"
    and v0: "spec_visibleDrawings (resolverApp uuidStore 20) = []"
    by (simp_all add: spec_visibleDrawings_def resolverApp_def uuidStore_def drawingAnn_def
        commentAnn_def)
  from resolver_without_selection [OF m n w, of "13 / 2"] v2
  have r2: "activeDrawing (resolverApp uuidStore (13 / 2))
       = Some \<lparr>version = ''5.3.0'', objects = [''path1'', ''rect'', ''circle'']\<rparr>"
    by (simp add: drawnObjects_def drawingAnn_def)
  from resolver_without_selection [OF m n w, of 5] v1
  have r1: "activeDrawing (resolverApp uuidStore 5)
       = Some \<lparr>version = ''4.6.0'', objects = [''path1'']\<rparr>"
    by (simp add: drawingAnn_def)
  from resolver_without_selection [OF m n w, of 20] v0
  have r0: "activeDrawing (resolverApp uuidStore 20) = None"
    by simp
  from m [of "13 / 2"] n [of "13 / 2"] d u wf r2 r1 r0 show ?thesis
    by blast
qed

text \<open>
  What the resolver does with identifiers of another kind, which the server never issues:
  the signature \<open>a,b\<close> of a single annotation is split into \<open>a\<close> and \<open>b\<close> and nothing is
  shown; an empty identifier gives an empty, falsy signature; an identifier shared with an
  annotation that is not visible makes the single drawing a merged document.
\<close>

lemma resolver_comma_id:
  "\<not> isDrawingMode (resolverApp [drawingAnn ''a,b'' 5 8 ''4.6.0'' [''path1'']] (13 / 2))
   \<and> activeAnnotationId (resolverApp [drawingAnn ''a,b'' 5 8 ''4.6.0'' [''path1'']] (13 / 2)) = None
   \<and> spec_visibleDrawings (resolverApp [drawingAnn ''a,b'' 5 8 ''4.6.0'' [''path1'']] (13 / 2))
       = [drawingAnn ''a,b'' 5 8 ''4.6.0'' [''path1'']]
   \<and> drawingData (drawingAnn ''a,b'' 5 8 ''4.6.0'' [''path1''])
       = Some \<lparr>version = ''4.6.0'', objects = [''path1'']\<rparr>
   \<and> activeDrawing (resolverApp [drawingAnn ''a,b'' 5 8 ''4.6.0'' [''path1'']] (13 / 2)) = None"
  by (simp add: resolverApp_def drawingAnn_def spec_visibleDrawings_def activeDrawing_def
      visibleAnns_def visibleAnnotationIdsString_def hasDrawingInRange_def isTimeInRange_def
      TIME_EPSILON_def)

lemma resolver_empty_id:
  "activeDrawing (resolverApp [drawingAnn [] 5 8 ''4.6.0'' [''path1'']] (13 / 2)) = None"
  by (simp add: resolverApp_def drawingAnn_def activeDrawing_def
      visibleAnnotationIdsString_def hasDrawingInRange_def isTimeInRange_def TIME_EPSILON_def)

lemma resolver_shared_id:
  "activeDrawing (resolverApp [drawingAnn ''a'' 5 8 ''4.6.0'' [''path1''], commentAnn ''a'' 0 1] (13 / 2))
     = Some \<lparr>version = ''5.3.0'', objects = [''path1'']\<rparr>"
  by (simp add: resolverApp_def drawingAnn_def commentAnn_def activeDrawing_def visibleAnns_def
      visibleAnnotationIdsString_def hasDrawingInRange_def isTimeInRange_def TIME_EPSILON_def
      drawnObjects_def)

text \<open>
  C10.  When \<open>activeDrawing\<close> finds two or more annotations for the signature it merges
  them, and the merged document has the version \<open>5.3.0\<close> whatever the versions of the
  documents it merges; only with exactly one annotation is the stored document returned
  as it is, version included.
\<close>

theorem merged_drawing_version:
  fixes a :: "'o AppState"
  assumes "visibleAnnotationIdsString a \<noteq> []"
  shows "(2 \<le> length (visibleAnns a) \<longrightarrow>
            activeDrawing a =
              Some \<lparr>version = ''5.3.0'', objects = concat (map drawnObjects (visibleAnns a))\<rparr>)
       \<and> (length (visibleAnns a) = 1 \<longrightarrow> activeDrawing a = drawingData (visibleAnns a ! 0))"
  using assms by (simp add: activeDrawing_def)

theorem merged_drawing_version_witness:
  "visibleAnnotationIdsString (resolverApp exampleStore (13 / 2)) = ''a,b''
   \<and> visibleAnns (resolverApp exampleStore (13 / 2))
       = [drawingAnn ''b'' 5 8 ''4.6.0'' [''path1''], drawingAnn ''a'' 6 7 ''6.0.0'' [''rect'', ''circle'']]
   \<and> activeDrawing (resolverApp exampleStore (13 / 2))
       = Some \<lparr>version = ''5.3.0'', objects = [''path1'', ''rect'', ''circle'']\<rparr>
   \<and> visibleAnns (resolverApp exampleStore 5) = [drawingAnn ''b'' 5 8 ''4.6.0'' [''path1'']]
   \<and> activeDrawing (resolverApp exampleStore 5) = Some \<lparr>version = ''4.6.0'', objects = [''path1'']\<rparr>"
proof -
  have s2: "visibleAnnotationIdsString (resolverApp exampleStore (13 / 2)) = ''a,b''"
    and s1: "visibleAnnotationIdsString (resolverApp exampleStore 5) = ''b''"
    by (simp_all add: resolver_examples visibleAnnotationIdsString_def hasDrawingInRange_def
        isTimeInRange_def TIME_EPSILON_def)
  have v2: "visibleAnns (resolverApp exampleStore (13 / 2))
       = [drawingAnn ''b'' 5 8 ''4.6.0'' [''path1''], drawingAnn ''a'' 6 7 ''6.0.0'' [''rect'', ''circle'']]"
    unfolding visibleAnns_def s2 by (simp add: resolver_examples)
  have v1: "visibleAnns (resolverApp exampleStore 5) = [drawingAnn ''b'' 5 8 ''4.6.0'' [''path1'']]"
    unfolding visibleAnns_def s1 by (simp add: resolver_examples)
  from s2 have n2: "visibleAnnotationIdsString (resolverApp exampleStore (13 / 2)) \<noteq> []" by simp
  from s1 have n1: "visibleAnnotationIdsString (resolverApp exampleStore 5) \<noteq> []" by simp
  from merged_drawing_version [OF n2] merged_drawing_version [OF n1] s2 v2 v1 show ?thesis
    by (simp add: drawnObjects_def drawingAnn_def)
qed

subsection \<open>Clearing the annotations of a video\<close>

text \<open>
  C9.  After \<open>clearAnnotations vid\<close> no stored annotation has the video id \<open>vid\<close>, and the
  annotations of every other video are the same list as before, in the same order:
  \<open>getAnnotations\<close> returns nothing for \<open>vid\<close> and what it returned before for any other
  video.
\<close>

theorem clearAnnotations_frame:
  "(\<forall>a\<in>set (stored (clearAnnotations vid st)). videoId a \<noteq> vid)
   \<and> filter (\<lambda>a. videoId a \<noteq> vid) (stored (clearAnnotations vid st))
       = filter (\<lambda>a. videoId a \<noteq> vid) (stored st)
   \<and> storage_getAnnotations vid (clearAnnotations vid st) = []
   \<and> (other \<noteq> vid \<longrightarrow>
        storage_getAnnotations other (clearAnnotations vid st) = storage_getAnnotations other st)"
proof (cases st)
  case None
  then show ?thesis
    by (simp add: clearAnnotations_def stored_def storage_getAnnotations_def)
next
  case (Some all_anns)
  have gone: "filter (\<lambda>a. videoId a = vid) (filter (\<lambda>a. videoId a \<noteq> vid) all_anns) = []"
    by (simp add: filter_empty_conv)
  have kept: "filter (\<lambda>a. videoId a = other) (filter (\<lambda>a. videoId a \<noteq> vid) all_anns)
      = filter (\<lambda>a. videoId a = other) all_anns" if "other \<noteq> vid"
    using that by (auto intro: filter_cong)
  from Some gone kept show ?thesis
    by (simp add: clearAnnotations_def stored_def storage_getAnnotations_def)
qed

theorem clearAnnotations_frame_witness:
  "stored (clearAnnotations ''v1'' (Some (exampleStore @ [otherVideoAnn]))) = [otherVideoAnn]
   \<and> ''v2'' \<noteq> ''v1''
   \<and> storage_getAnnotations ''v1'' (clearAnnotations ''v1'' (Some (exampleStore @ [otherVideoAnn]))) = []
   \<and> storage_getAnnotations ''v2'' (clearAnnotations ''v1'' (Some (exampleStore @ [otherVideoAnn])))
       = storage_getAnnotations ''v2'' (Some (exampleStore @ [otherVideoAnn]))
   \<and> storage_getAnnotations ''v2'' (Some (exampleStore @ [otherVideoAnn])) = [otherVideoAnn]
   \<and> videoId otherVideoAnn \<noteq> ''v1''"
proof -
  have s: "stored (clearAnnotations ''v1'' (Some (exampleStore @ [otherVideoAnn]))) = [otherVideoAnn]"
    by (simp add: clearAnnotations_def stored_def exampleStore_def drawingAnn_def commentAnn_def
        otherVideoAnn_def)
  have g: "storage_getAnnotations ''v2'' (Some (exampleStore @ [otherVideoAnn])) = [otherVideoAnn]"
    by (simp add: storage_getAnnotations_def exampleStore_def drawingAnn_def commentAnn_def
        otherVideoAnn_def)
  have d: "''v2'' \<noteq> ''v1''" by simp
  from clearAnnotations_frame [of "''v1''" "Some (exampleStore @ [otherVideoAnn])" "''v2''"] s g d
  show ?thesis
    by simp
qed

subsection \<open>Failures of API calls\<close>

lemma failed_cases:
  assumes "failed resp"
  obtains "resp = FetchRejected" | status where "resp = HttpError status"
  using assms by (cases resp) (simp_all add: failed_def)

text \<open>
  C6 (as amended).  A failed call (rejected, or an HTTP error status) to create a user, to
  save an annotation, to export or to import annotations ends in exactly one alert, the
  failure message of that handler.  A failed fetch of the annotations of a loaded video
  does not: it is logged to the console and the annotation list becomes empty.  A failed
  lookup of the stored user raises no alert either: onboarding is shown, and the failure
  is logged to the console unless the status is 404, which is not logged.
\<close>

theorem api_failure_surfacing:
  fixes a :: "'o AppState"
  shows
    "(failed userResp \<longrightarrow>
        alerts (fst (handleUserCreate userResp a))
          = [''Failed to create user. Please make sure the server is running.''])
   \<and> (failed saveResp \<and> app_videoId a \<noteq> None \<and> currentUser a \<noteq> None \<longrightarrow>
        alerts (fst (handleAddComment currentDrawing saveResp a))
          = [''Failed to save annotation. Please make sure the server is running.''])
   \<and> (failed exportResp \<and> app_videoId a \<noteq> None \<longrightarrow>
        alerts (fst (handleExport exportResp a)) = [''Failed to export annotations.''])
   \<and> (failed importResp \<and> app_videoId a \<noteq> None \<and> currentUser a \<noteq> None
        \<and> (app_videoId a = Some (videoHash data) \<or> confirmed) \<longrightarrow>
        alerts (fst (handleImportFile (Some (Some data)) confirmed importResp reloadResp a))
          = [''Failed to import annotations. Make sure the file is valid JSON.''])
   \<and> (failed loadResp \<and> app_videoId a \<noteq> None \<longrightarrow>
        loadAnnotations loadResp a
          = ([ConsoleError ''Error fetching annotations:''], a\<lparr>annotations := []\<rparr>))
   \<and> (failed lookupResp \<longrightarrow> alerts (fst (initUser storedUser lookupResp a)) = [])
   \<and> (failed lookupResp \<longrightarrow>
        initUser (Some su) lookupResp a
          = ((if lookupResp = HttpError 404 then [] else [ConsoleError ''Error fetching user:'']),
             a\<lparr>showOnboarding := True, isUserLoading := False\<rparr>))"
proof (intro conjI impI)
  assume "failed userResp"
  then show "alerts (fst (handleUserCreate userResp a))
      = [''Failed to create user. Please make sure the server is running.'']"
    by (cases rule: failed_cases) (simp_all add: handleUserCreate_def api_createUser_def alerts_def)
next
  assume "failed saveResp \<and> app_videoId a \<noteq> None \<and> currentUser a \<noteq> None"
  then have f: "failed saveResp" and pre: "app_videoId a \<noteq> None" "currentUser a \<noteq> None"
    by simp_all
  from f have "\<exists>err. api_saveAnnotation saveResp = Inl err"
    by (cases rule: failed_cases) (simp_all add: api_saveAnnotation_def)
  with pre show "alerts (fst (handleAddComment currentDrawing saveResp a))
      = [''Failed to save annotation. Please make sure the server is running.'']"
    by (auto simp: handleAddComment_def Let_def alerts_def)
next
  assume "failed exportResp \<and> app_videoId a \<noteq> None"
  then have f: "failed exportResp" and pre: "app_videoId a \<noteq> None"
    by simp_all
  from f have "\<exists>err. api_exportAnnotations exportResp = Inl err"
    by (cases rule: failed_cases) (simp_all add: api_exportAnnotations_def)
  with pre show "alerts (fst (handleExport exportResp a)) = [''Failed to export annotations.'']"
    by (auto simp: handleExport_def alerts_def)
next
  assume "failed importResp \<and> app_videoId a \<noteq> None \<and> currentUser a \<noteq> None
        \<and> (app_videoId a = Some (videoHash data) \<or> confirmed)"
  then have f: "failed importResp" and v: "app_videoId a \<noteq> None"
    and u: "currentUser a \<noteq> None" and c: "app_videoId a = Some (videoHash data) \<or> confirmed"
    by simp_all
  from f have "\<exists>err. api_importAnnotations importResp = Inl err"
    by (cases rule: failed_cases) (simp_all add: api_importAnnotations_def)
  with v u c show "alerts (fst (handleImportFile (Some (Some data)) confirmed importResp reloadResp a))
      = [''Failed to import annotations. Make sure the file is valid JSON.'']"
    by (auto simp: handleImportFile_def Let_def alerts_def)
next
  assume "failed loadResp \<and> app_videoId a \<noteq> None"
  then have f: "failed loadResp" and pre: "app_videoId a \<noteq> None"
    by simp_all
  from f have "api_getAnnotations loadResp = ([ConsoleError ''Error fetching annotations:''], [])"
    by (cases rule: failed_cases) (simp_all add: api_getAnnotations_def)
  with pre show "loadAnnotations loadResp a
      = ([ConsoleError ''Error fetching annotations:''], a\<lparr>annotations := []\<rparr>)"
    by (auto simp: loadAnnotations_def)
next
  assume f: "failed lookupResp"
  then have "\<exists>effs. api_getUser lookupResp = (effs, None) \<and> alerts effs = []"
    by (cases rule: failed_cases) (simp_all add: api_getUser_def alerts_def)
  then show "alerts (fst (initUser storedUser lookupResp a)) = []"
    by (cases storedUser) (auto simp: initUser_def alerts_def)
next
  assume "failed lookupResp"
  then show "initUser (Some su) lookupResp a
      = ((if lookupResp = HttpError 404 then [] else [ConsoleError ''Error fetching user:'']),
         a\<lparr>showOnboarding := True, isUserLoading := False\<rparr>)"
    by (cases rule: failed_cases) (simp_all add: initUser_def api_getUser_def)
qed

text \<open>
  C6 as stated fails for the annotation fetch: with a video loaded, an HTTP 500 or a
  rejected request raises no alert and leaves an empty annotation list.
\<close>

theorem annotation_fetch_failure_counterexample:
  "failed (HttpError 500 :: string Annotation list Response)
   \<and> app_videoId (resolverApp exampleStore 5) = Some ''v1''
   \<and> alerts (fst (loadAnnotations (HttpError 500) (resolverApp exampleStore 5))) = []
   \<and> annotations (snd (loadAnnotations (HttpError 500) (resolverApp exampleStore 5))) = []
   \<and> alerts (fst (loadAnnotations FetchRejected (resolverApp exampleStore 5))) = []"
  by (simp add: failed_def resolverApp_def loadAnnotations_def api_getAnnotations_def alerts_def)

theorem api_failure_surfacing_witness:
  "failed (FetchRejected :: User Response)
   \<and> failed (HttpError 500 :: string Annotation Response)
   \<and> failed (HttpError 503 :: unit ExportData Response)
   \<and> failed (FetchRejected :: nat Response)
   \<and> failed (HttpError 500 :: string Annotation list Response)
   \<and> app_videoId (resolverApp exampleStore 5) \<noteq> None
   \<and> currentUser (resolverApp exampleStore 5) \<noteq> None
   \<and> alerts (fst (handleUserCreate FetchRejected (resolverApp exampleStore 5)))
       = [''Failed to create user. Please make sure the server is running.'']
   \<and> alerts (fst (handleAddComment None (HttpError 500) (resolverApp exampleStore 5)))
       = [''Failed to save annotation. Please make sure the server is running.'']
   \<and> alerts (fst (handleExport (HttpError 503 :: unit ExportData Response)
         (resolverApp exampleStore 5)))
       = [''Failed to export annotations.'']
   \<and> alerts (fst (handleImportFile (Some (Some exampleExport)) True FetchRejected
         (HttpOk []) (resolverApp exampleStore 5)))
       = [''Failed to import annotations. Make sure the file is valid JSON.'']
   \<and> loadAnnotations (HttpError 500) (resolverApp exampleStore 5)
       = ([ConsoleError ''Error fetching annotations:''],
          (resolverApp exampleStore 5)\<lparr>annotations := []\<rparr>)
   \<and> alerts (fst (initUser (Some exampleUser) FetchRejected (resolverApp exampleStore 5))) = []
   \<and> initUser (Some exampleUser) FetchRejected (resolverApp exampleStore 5)
       = ([ConsoleError ''Error fetching user:''],
          (resolverApp exampleStore 5)\<lparr>showOnboarding := True, isUserLoading := False\<rparr>)
   \<and> failed (HttpError 404 :: User Response)
   \<and> initUser (Some exampleUser) (HttpError 404) (resolverApp exampleStore 5)
       = ([], (resolverApp exampleStore 5)\<lparr>showOnboarding := True, isUserLoading := False\<rparr>)"
proof -
  have f: "failed (FetchRejected :: User Response)"
    "failed (HttpError 500 :: string Annotation Response)"
    "failed (HttpError 503 :: unit ExportData Response)"
    "failed (FetchRejected :: nat Response)"
    "failed (HttpError 500 :: string Annotation list Response)"
    by (simp_all add: failed_def)
  have pre: "app_videoId (resolverApp exampleStore 5) \<noteq> None"
    "currentUser (resolverApp exampleStore 5) \<noteq> None"
    by (simp_all add: resolverApp_def)
  have nf: "failed (HttpError 404 :: User Response)"
    by (simp add: failed_def)
  from api_failure_surfacing [of "FetchRejected" "resolverApp exampleStore 5"
      "HttpError 500" None "HttpError 503 :: unit ExportData Response" "FetchRejected"
      exampleExport True "HttpOk []" "HttpError 500" "FetchRejected" "Some exampleUser"
      exampleUser]
    api_failure_surfacing [of "FetchRejected" "resolverApp exampleStore 5"
      "HttpError 500" None "HttpError 503 :: unit ExportData Response" "FetchRejected"
      exampleExport True "HttpOk []" "HttpError 500" "HttpError 404" "Some exampleUser"
      exampleUser]
    f pre nf
  show ?thesis
    by (simp add: alerts_def)
qed

end
